theory Spec2Isabelle
  imports Complex_Main "HOL-Library.Word" "HOL-Library.Monad_Syntax"
begin

unbundle bit_operations_syntax

section \<open>Machine types\<close>

type_synonym u8 = "8 word"
type_synonym u16 = "16 word"
type_synonym u32 = "32 word"

section \<open>The tag tree handed over by the tag-tree reader\<close>

text \<open>
  Modelled from the spec: the tag identifiers (\<open>SubIFDs\<close>, \<open>ImageWidth\<close>, ...) are named
  constants of the tag-tree reader, declared outside \<^verbatim>\<open>readraw.go\<close>.  The spec lists them
  as distinct proprietary identifiers (section 6); the \<^verbatim>\<open>switch\<close> of \<open>extractDetails\<close> only
  compiles when its case constants are pairwise different.  They are modelled as the
  constructors of one datatype, every other 16-bit identifier being \<open>OtherTag\<close>.
\<close>

datatype IFDtag =
    SubIFDs | ImageWidth | ImageHeight | BitsPerSample | SonyRawFileType
  | StripOffsets | RowsPerStrip | StripByteCounts | SonyCurve | BlackLevel2
  | WB_RGGBLevels | DefaultCropSize | CFAPattern2 | CFARepeatPatternDim
  | DNGPrivateData | SR2SubIFDOffset | SR2SubIFDLength | SR2SubIFDKey
  | OtherTag u16

text \<open>
  Modelled from the spec: the records of the tag-tree reader, with the fields
  \<open>extractDetails\<close> reads.  \<open>short\<close> and \<open>sshort\<close> are pointers to slices in the source
  (\<^verbatim>\<open>*rawIFD.FIAvals[i].short\<close>): \<open>None\<close> is the nil pointer.  An \<^verbatim>\<open>int16\<close> is kept as
  its 16-bit pattern and read with \<open>sint\<close>.
\<close>

record IFDFIA =
  Tag :: IFDtag
  Offset :: u32

record FIAval =
  short :: "u16 list option"
  sshort :: "u16 list option"

record EXIFIFD =
  FIA :: "IFDFIA list"
  FIAvals :: "FIAval list"

record TIFFHeader =
  hdrOffset :: u32

section \<open>rawDetails\<close>

record Point =
  X :: int
  Y :: int

record Rectangle =
  Min' :: Point
  Max' :: Point

text \<open>
  \<^verbatim>\<open>image.Point\<close> and \<^verbatim>\<open>image.Rectangle\<close> above (the fields \<^verbatim>\<open>Min\<close> and \<^verbatim>\<open>Max\<close> are \<open>Min'\<close>
  and \<open>Max'\<close> here).  The struct \<open>rawDetails\<close> below: a fixed-size array is a list of
  that length, the field \<^verbatim>\<open>length\<close> is \<open>length'\<close>, and the type \<^verbatim>\<open>sonyRawFile\<close>, declared
  outside \<^verbatim>\<open>readraw.go\<close>, is the type parameter \<open>'k\<close>.
\<close>

record 'k rawDetails =
  width :: u16
  height :: u16
  bitDepth :: u16
  rawType :: 'k
  offset :: u32
  stride :: u32
  length' :: u32
  blackLevel :: "u16 list"
  WhiteBalance :: "u16 list"
  gammaCurve :: "u16 list"
  crop :: Rectangle
  cfaPattern :: "u8 list"
  cfaPatternDim :: "u16 list"

definition ZR :: Rectangle where
  "ZR = \<lparr>Min' = \<lparr>X = 0, Y = 0\<rparr>, Max' = \<lparr>X = 0, Y = 0\<rparr>\<rparr>"

text \<open>\<^verbatim>\<open>var rw rawDetails\<close>: the zero value; \<open>z\<close> is the zero of \<^verbatim>\<open>sonyRawFile\<close>.\<close>

definition zero_rawDetails :: "'k \<Rightarrow> 'k rawDetails" where
  "zero_rawDetails z =
     \<lparr>width = 0, height = 0, bitDepth = 0, rawType = z, offset = 0, stride = 0,
      length' = 0, blackLevel = [0, 0, 0, 0], WhiteBalance = [0, 0, 0, 0],
      gammaCurve = [0, 0, 0, 0, 0], crop = ZR, cfaPattern = [0, 0, 0, 0],
      cfaPatternDim = [0, 0]\<rparr>"

text \<open>
  The builtin \<^verbatim>\<open>copy(dst, src)\<close>: the first \<open>min (len dst) (len src)\<close> elements of \<open>dst\<close> are
  overwritten, the rest stays.
\<close>

definition copy_go :: "'a list \<Rightarrow> 'a list \<Rightarrow> 'a list" where
  "copy_go dst src = take (length dst) src @ drop (length src) dst"

section \<open>The collaborators of extractDetails\<close>

text \<open>
  \<open>ParseHeader\<close>, \<open>ExtractMetaData\<close> and \<open>DecryptSR2\<close> are functions of this package that
  are not in \<^verbatim>\<open>readraw.go\<close>; \<open>bytes.NewReader\<close> is the standard library's.  They are
  parameters of the model.  A reader (\<^verbatim>\<open>io.ReadSeeker\<close>) is a value of the type \<open>'rs\<close>; a
  call that reads or seeks returns the reader it leaves behind.  An \<^verbatim>\<open>error\<close> is a value of
  the type \<open>'e\<close>, \<open>None\<close> being \<^verbatim>\<open>nil\<close>.
\<close>

record ('rs, 'e, 'k) env =
  ParseHeader :: "'rs \<Rightarrow> 'rs \<times> TIFFHeader \<times> 'e option"
  ExtractMetaData :: "'rs \<Rightarrow> int \<Rightarrow> int \<Rightarrow> 'rs \<times> EXIFIFD \<times> 'e option"
  DecryptSR2 :: "'rs \<Rightarrow> u32 \<Rightarrow> u32 \<Rightarrow> 'rs \<times> u8 list"
  NewReader :: "u8 list \<Rightarrow> 'rs"
  sonyRawFile :: "u32 \<Rightarrow> 'k"

text \<open>
  How a call of \<open>extractDetails\<close> ends: it returns the pair \<^verbatim>\<open>(rw, err)\<close>, or
  \<^verbatim>\<open>log.Fatal\<close> ends the process, or the run time panics (a nil pointer, an index out of
  range).
\<close>

datatype ('a, 'e) outcome = Return 'a "'e option" | Fatal 'e | Panic

section \<open>extractDetails\<close>

text \<open>\<^verbatim>\<open>*ifd.FIAvals[i].short\<close> and \<^verbatim>\<open>*ifd.FIAvals[i].sshort\<close>; \<open>None\<close> is the panic.\<close>

definition deref_short :: "EXIFIFD \<Rightarrow> nat \<Rightarrow> u16 list option" where
  "deref_short ifd i = (if i < length (FIAvals ifd) then short (FIAvals ifd ! i) else None)"

definition deref_sshort :: "EXIFIFD \<Rightarrow> nat \<Rightarrow> u16 list option" where
  "deref_sshort ifd i = (if i < length (FIAvals ifd) then sshort (FIAvals ifd ! i) else None)"

text \<open>The body of the \<^verbatim>\<open>switch v.Tag\<close> over the sensor sub-tree; \<open>None\<close> is a panic.\<close>

definition rawIFD_tag ::
  "(u32 \<Rightarrow> 'k) \<Rightarrow> EXIFIFD \<Rightarrow> nat \<Rightarrow> IFDFIA \<Rightarrow> 'k rawDetails \<Rightarrow> 'k rawDetails option" where
  "rawIFD_tag conv rawIFD i v rw =
    (case Tag v of
       ImageWidth \<Rightarrow> Some (rw\<lparr>width := ucast (Offset v)\<rparr>)
     | ImageHeight \<Rightarrow> Some (rw\<lparr>height := ucast (Offset v)\<rparr>)
     | BitsPerSample \<Rightarrow> Some (rw\<lparr>bitDepth := ucast (Offset v)\<rparr>)
     | SonyRawFileType \<Rightarrow> Some (rw\<lparr>rawType := conv (Offset v)\<rparr>)
     | StripOffsets \<Rightarrow> Some (rw\<lparr>offset := Offset v\<rparr>)
     | RowsPerStrip \<Rightarrow> Some (rw\<lparr>stride := Offset v\<rparr>)
     | StripByteCounts \<Rightarrow> Some (rw\<lparr>length' := Offset v\<rparr>)
     | SonyCurve \<Rightarrow>
         (case deref_short rawIFD i of
            None \<Rightarrow> None
          | Some curve \<Rightarrow>
              Some (rw\<lparr>gammaCurve :=
                (copy_go (take 4 (gammaCurve rw)) curve @ drop 4 (gammaCurve rw))[4 := 0x3fff]\<rparr>))
     | BlackLevel2 \<Rightarrow>
         (case deref_short rawIFD i of
            None \<Rightarrow> None
          | Some black \<Rightarrow> Some (rw\<lparr>blackLevel := copy_go (blackLevel rw) black\<rparr>))
     | WB_RGGBLevels \<Rightarrow>
         (case deref_sshort rawIFD i of
            None \<Rightarrow> None
          | Some balance \<Rightarrow> Some (rw\<lparr>WhiteBalance := copy_go (WhiteBalance rw) balance\<rparr>))
     | DefaultCropSize \<Rightarrow> Some rw
     | CFAPattern2 \<Rightarrow>
         Some (rw\<lparr>cfaPattern := (cfaPattern rw)
           [0 := ucast (drop_bit 0 (Offset v AND 0x000000ff)),
            1 := ucast (drop_bit 8 (Offset v AND 0x0000ff00)),
            2 := ucast (drop_bit 16 (Offset v AND 0x00ff0000)),
            3 := ucast (drop_bit 24 (Offset v AND 0xff000000))]\<rparr>)
     | CFARepeatPatternDim \<Rightarrow>
         Some (rw\<lparr>cfaPatternDim := (cfaPatternDim rw)
           [0 := ucast (drop_bit 0 (Offset v * 0x0000ffff)),
            1 := ucast (drop_bit 16 (Offset v * 0xffff0000))]\<rparr>)
     | _ \<Rightarrow> Some rw)"

text \<open>\<^verbatim>\<open>for i, v := range rawIFD.FIA\<close>, from the index \<open>i\<close> on.\<close>

fun rawIFD_loop ::
  "(u32 \<Rightarrow> 'k) \<Rightarrow> EXIFIFD \<Rightarrow> nat \<Rightarrow> IFDFIA list \<Rightarrow> 'k rawDetails \<Rightarrow> 'k rawDetails option" where
  "rawIFD_loop conv rawIFD i [] rw = Some rw"
| "rawIFD_loop conv rawIFD i (v # vs) rw =
     (case rawIFD_tag conv rawIFD i v rw of
        None \<Rightarrow> None
      | Some rw' \<Rightarrow> rawIFD_loop conv rawIFD (Suc i) vs rw')"

text \<open>
  \<^verbatim>\<open>for i := range dng.FIA\<close>: the three \<^verbatim>\<open>if\<close>s in their order, on the state
  \<open>(sr2offset, sr2length, sr2key)\<close>.
\<close>

definition dng_tag :: "IFDFIA \<Rightarrow> u32 \<times> u32 \<times> u8 list \<Rightarrow> u32 \<times> u32 \<times> u8 list" where
  "dng_tag f st =
    (let (sr2offset, sr2length, sr2key) = st;
         sr2offset = (if Tag f = SR2SubIFDOffset then Offset f else sr2offset);
         sr2length = (if Tag f = SR2SubIFDLength then Offset f else sr2length);
         sr2key = (if Tag f = SR2SubIFDKey
                   then (let key = Offset f * 0x0edd + 1 in
                         sr2key[3 := ucast (drop_bit 24 key AND 0xff),
                                2 := ucast (drop_bit 16 key AND 0xff),
                                1 := ucast (drop_bit 8 key AND 0xff),
                                0 := ucast (key AND 0xff)])
                   else sr2key)
     in (sr2offset, sr2length, sr2key))"

definition dng_loop :: "IFDFIA list \<Rightarrow> u32 \<times> u32 \<times> u8 list" where
  "dng_loop fs = foldl (\<lambda>st f. dng_tag f st) (0, 0, [0, 0, 0, 0]) fs"

text \<open>The \<^verbatim>\<open>switch v.Tag\<close> over the decrypted sub-tree, and its loop.\<close>

definition sr2_tag :: "EXIFIFD \<Rightarrow> nat \<Rightarrow> IFDFIA \<Rightarrow> 'k rawDetails \<Rightarrow> 'k rawDetails option" where
  "sr2_tag sr2 i v rw =
    (case Tag v of
       BlackLevel2 \<Rightarrow>
         (case deref_short sr2 i of
            None \<Rightarrow> None
          | Some black \<Rightarrow> Some (rw\<lparr>blackLevel := copy_go (blackLevel rw) black\<rparr>))
     | WB_RGGBLevels \<Rightarrow>
         (case deref_sshort sr2 i of
            None \<Rightarrow> None
          | Some balance \<Rightarrow> Some (rw\<lparr>WhiteBalance := copy_go (WhiteBalance rw) balance\<rparr>))
     | _ \<Rightarrow> Some rw)"

fun sr2_loop :: "EXIFIFD \<Rightarrow> nat \<Rightarrow> IFDFIA list \<Rightarrow> 'k rawDetails \<Rightarrow> 'k rawDetails option" where
  "sr2_loop sr2 i [] rw = Some rw"
| "sr2_loop sr2 i (v # vs) rw =
     (case sr2_tag sr2 i v rw of
        None \<Rightarrow> None
      | Some rw' \<Rightarrow> sr2_loop sr2 (Suc i) vs rw')"

text \<open>
  The two \<^verbatim>\<open>if\<close>s of the body of \<^verbatim>\<open>for _, fia := range meta.FIA\<close>.  \<open>Inl\<close> is the way the
  function ends inside the body, \<open>Inr\<close> the state (reader, \<open>rw\<close>) the loop goes on with.
\<close>

definition subIFD_part ::
  "('rs, 'e, 'k) env \<Rightarrow> IFDFIA \<Rightarrow> 'rs \<times> 'k rawDetails
     \<Rightarrow> ('k rawDetails, 'e) outcome + 'rs \<times> 'k rawDetails" where
  "subIFD_part E fia st =
    (let (rs, rw) = st in
     if Tag fia = SubIFDs then
       (case ExtractMetaData E rs (uint (Offset fia)) 0 of
          (rs', rawIFD, Some err) \<Rightarrow> Inl (Return rw (Some err))
        | (rs', rawIFD, None) \<Rightarrow>
            (case rawIFD_loop (sonyRawFile E) rawIFD 0 (FIA rawIFD) rw of
               None \<Rightarrow> Inl Panic
             | Some rw' \<Rightarrow> Inr (rs', rw')))
     else Inr (rs, rw))"

definition dng_part ::
  "('rs, 'e, 'k) env \<Rightarrow> IFDFIA \<Rightarrow> 'rs \<times> 'k rawDetails
     \<Rightarrow> ('k rawDetails, 'e) outcome + 'rs \<times> 'k rawDetails" where
  "dng_part E fia st =
    (let (rs, rw) = st in
     if Tag fia = DNGPrivateData then
       (case ExtractMetaData E rs (uint (Offset fia)) 0 of
          (rs', dng, Some err) \<Rightarrow> Inl (Return rw (Some err))
        | (rs', dng, None) \<Rightarrow>
            (let (sr2offset, sr2length, sr2key) = dng_loop (FIA dng);
                 (rs'', buf) = DecryptSR2 E rs' sr2offset sr2length;
                 br = NewReader E buf
             in case ExtractMetaData E br 0 0 of
                  (br', sr2, Some err) \<Rightarrow> Inl (Fatal err)
                | (br', sr2, None) \<Rightarrow>
                    (case sr2_loop sr2 0 (FIA sr2) rw of
                       None \<Rightarrow> Inl Panic
                     | Some rw' \<Rightarrow> Inr (rs'', rw'))))
     else Inr (rs, rw))"

fun meta_loop ::
  "('rs, 'e, 'k) env \<Rightarrow> IFDFIA list \<Rightarrow> 'rs \<times> 'k rawDetails \<Rightarrow> ('k rawDetails, 'e) outcome" where
  "meta_loop E [] st = Return (snd st) None"
| "meta_loop E (fia # fias) st =
     (case subIFD_part E fia st of
        Inl out \<Rightarrow> out
      | Inr st' \<Rightarrow>
          (case dng_part E fia st' of
             Inl out \<Rightarrow> out
           | Inr st'' \<Rightarrow> meta_loop E fias st''))"

text \<open>
  \<open>extractDetails\<close>.  The error of \<open>ParseHeader\<close> is assigned to \<^verbatim>\<open>err\<close> and overwritten by
  the next assignment before anything reads it.
\<close>

definition extractDetails :: "('rs, 'e, 'k) env \<Rightarrow> 'rs \<Rightarrow> ('k rawDetails, 'e) outcome" where
  "extractDetails E rs =
    (let rw = zero_rawDetails (sonyRawFile E 0);
         (rs1, header, err) = ParseHeader E rs;
         (rs2, meta, err) = ExtractMetaData E rs1 (uint (hdrOffset header)) 0
     in case err of
          Some e \<Rightarrow> Return rw (Some e)
        | None \<Rightarrow> meta_loop E (FIA meta) (rs2, rw))"


subsection \<open>Concrete collaborators\<close>

text \<open>
  A reader over a file or over a byte buffer, and collaborators that answer from fixed tag
  lists: the header offset is 8, the tag list at a file offset is \<open>file_ifd\<close> of it, the tag
  list of a byte buffer is \<open>buf_ifd\<close> of it, and decryption returns the empty buffer.
\<close>

datatype reader = FileReader | BytesReader "u8 list"

definition table_env ::
  "string option \<Rightarrow> (int \<Rightarrow> EXIFIFD \<times> string option) \<Rightarrow> (u8 list \<Rightarrow> EXIFIFD \<times> string option)
     \<Rightarrow> (reader, string, u32) env" where
  "table_env herr file_ifd buf_ifd =
     \<lparr>ParseHeader = (\<lambda>rs. (rs, \<lparr>hdrOffset = 8\<rparr>, herr)),
      ExtractMetaData = (\<lambda>rs off n. case rs of
          FileReader \<Rightarrow> (rs, file_ifd off)
        | BytesReader b \<Rightarrow> (rs, buf_ifd b)),
      DecryptSR2 = (\<lambda>rs off len. (rs, [])),
      NewReader = BytesReader,
      sonyRawFile = (\<lambda>w. w)\<rparr>"

text \<open>A tag list of inline values, none of them with a typed value slice.\<close>

definition ifd_of :: "(IFDtag \<times> u32) list \<Rightarrow> EXIFIFD" where
  "ifd_of ts = \<lparr>FIA = map (\<lambda>(t, v). \<lparr>Tag = t, Offset = v\<rparr>) ts,
               FIAvals = map (\<lambda>_. \<lparr>short = None, sshort = None\<rparr>) ts\<rparr>"

text \<open>A file with no tag at all.\<close>

definition empty_file :: "(reader, string, u32) env" where
  "empty_file = table_env None (\<lambda>off. (ifd_of [], None)) (\<lambda>b. (ifd_of [], None))"

text \<open>The same file behind a header that does not parse.\<close>

definition bad_header_file :: "(reader, string, u32) env" where
  "bad_header_file =
     table_env (Some ''bad header'') (\<lambda>off. (ifd_of [], None)) (\<lambda>b. (ifd_of [], None))"

text \<open>
  A file whose only top-level tag is the private encrypted data, at offset 100; the
  decrypted buffer does not parse as a tag list.
\<close>

definition bad_sr2_file :: "(reader, string, u32) env" where
  "bad_sr2_file =
     table_env None
       (\<lambda>off. if off = 8 then (ifd_of [(DNGPrivateData, 100)], None)
              else (ifd_of [(SR2SubIFDOffset, 200), (SR2SubIFDLength, 16), (SR2SubIFDKey, 1)], None))
       (\<lambda>b. (ifd_of [], Some ''short read''))"

text \<open>
  A file with no sub-IFD pointer whose private block (at offset 100) decrypts to a tag list
  that holds the four black levels 512.
\<close>

definition black_only_file :: "(reader, string, u32) env" where
  "black_only_file =
     table_env None
       (\<lambda>off. if off = 8 then (ifd_of [(DNGPrivateData, 100)], None) else (ifd_of [], None))
       (\<lambda>b. (\<lparr>FIA = [\<lparr>Tag = BlackLevel2, Offset = 0\<rparr>],
                FIAvals = [\<lparr>short = Some [512, 512, 512, 512], sshort = None\<rparr>]\<rparr>, None))"

text \<open>
  A file whose sensor sub-tree (at offset 100) holds the repeat-pattern dimensions 2 and 2,
  packed as \<open>0x00020002\<close>.
\<close>

definition cfa_dim_file :: "(reader, string, u32) env" where
  "cfa_dim_file =
     table_env None
       (\<lambda>off. if off = 8 then (ifd_of [(SubIFDs, 100)], None)
              else (ifd_of [(CFARepeatPatternDim, 0x00020002)], None))
       (\<lambda>b. (ifd_of [], None))"

section \<open>The raster\<close>

text \<open>
  The struct \<open>pixel16\<close>; its blank field \<^verbatim>\<open>_ uint16\<close> is \<open>pad\<close>.  The struct \<open>RGB14\<close>.
\<close>

record pixel16 =
  R :: u16
  G :: u16
  B :: u16
  pad :: u16

record RGB14 =
  Pix :: "pixel16 list"
  Stride :: int
  Rect :: Rectangle

definition zero_pixel16 :: pixel16 where
  "zero_pixel16 = \<lparr>R = 0, G = 0, B = 0, pad = 0\<rparr>"

text \<open>
  \<^verbatim>\<open>image.Rect\<close>, \<^verbatim>\<open>Rectangle.Dx\<close> and \<^verbatim>\<open>Rectangle.Dy\<close> of the standard library: the rectangle
  is put in canonical order.
\<close>

definition image_Rect :: "int \<Rightarrow> int \<Rightarrow> int \<Rightarrow> int \<Rightarrow> Rectangle" where
  "image_Rect x0 y0 x1 y1 =
     (let (x0, x1) = (if x0 > x1 then (x1, x0) else (x0, x1));
          (y0, y1) = (if y0 > y1 then (y1, y0) else (y0, y1))
      in \<lparr>Min' = \<lparr>X = x0, Y = y0\<rparr>, Max' = \<lparr>X = x1, Y = y1\<rparr>\<rparr>)"

definition Dx :: "Rectangle \<Rightarrow> int" where
  "Dx r = X (Max' r) - X (Min' r)"

definition Dy :: "Rectangle \<Rightarrow> int" where
  "Dy r = Y (Max' r) - Y (Min' r)"

text \<open>\<open>NewRGB14\<close>; \<^verbatim>\<open>make\<close> panics on a negative length (\<open>None\<close>).\<close>

definition NewRGB14 :: "Rectangle \<Rightarrow> RGB14 option" where
  "NewRGB14 r =
     (let w = Dx r; h = Dy r in
      if w * h < 0 then None
      else Some \<lparr>Pix = replicate (nat (w * h)) zero_pixel16, Stride = w, Rect = r\<rparr>)"

text \<open>
  A value of Go's \<^verbatim>\<open>int\<close> (64 bits here): sums and products wrap around.  \<open>at\<close> takes any two
  \<^verbatim>\<open>int\<close>s, so its index is wrapped (\<open>at\<close> is \<open>at'\<close> here); \<open>None\<close> is the panic of an index
  out of range.  The receiver is a pointer to the raster: the raster the call leaves behind
  is returned with the pixel.
\<close>

definition wrap64 :: "int \<Rightarrow> int" where
  "wrap64 i = (i + 2 ^ 63) mod 2 ^ 64 - 2 ^ 63"

definition at' :: "RGB14 \<Rightarrow> int \<Rightarrow> int \<Rightarrow> pixel16 option \<times> RGB14" where
  "at' r x y =
     (let i = wrap64 (wrap64 (y * Stride r) + x) in
      (if 0 \<le> i \<and> i < int (length (Pix r)) then Some (Pix r ! nat i) else None, r))"

definition At :: "RGB14 \<Rightarrow> int \<Rightarrow> int \<Rightarrow> pixel16 option \<times> RGB14" where
  "At r x y = at' r x y"

text \<open>
  \<open>pixel16.RGBA\<close>: the shift is done on the \<^verbatim>\<open>uint16\<close>, the conversion to \<^verbatim>\<open>uint32\<close> after it.
\<close>

definition RGBA :: "pixel16 \<Rightarrow> u32 \<times> u32 \<times> u32 \<times> u32" where
  "RGBA c = (ucast (push_bit 2 (R c)), ucast (push_bit 2 (G c)), ucast (push_bit 2 (B c)), 0xffff)"

section \<open>The neighbour-fill pass\<close>

text \<open>
  One assignment \<^verbatim>\<open>img.Pix[a].R = img.Pix[b].R\<close> (and the same for \<open>G\<close> and \<open>B\<close>); \<open>None\<close> is
  the panic of an index out of range.
\<close>

definition in_range :: "'a list \<Rightarrow> int \<Rightarrow> bool" where
  "in_range xs i \<longleftrightarrow> 0 \<le> i \<and> i < int (length xs)"

definition copyR :: "pixel16 list \<Rightarrow> int \<Rightarrow> int \<Rightarrow> pixel16 list option" where
  "copyR pix a b =
     (if in_range pix a \<and> in_range pix b
      then Some (pix[nat a := (pix ! nat a)\<lparr>R := R (pix ! nat b)\<rparr>]) else None)"

definition copyG :: "pixel16 list \<Rightarrow> int \<Rightarrow> int \<Rightarrow> pixel16 list option" where
  "copyG pix a b =
     (if in_range pix a \<and> in_range pix b
      then Some (pix[nat a := (pix ! nat a)\<lparr>G := G (pix ! nat b)\<rparr>]) else None)"

definition copyB :: "pixel16 list \<Rightarrow> int \<Rightarrow> int \<Rightarrow> pixel16 list option" where
  "copyB pix a b =
     (if in_range pix a \<and> in_range pix b
      then Some (pix[nat a := (pix ! nat a)\<lparr>B := B (pix ! nat b)\<rparr>]) else None)"

text \<open>
  The loop counters and indices below are Go \<^verbatim>\<open>int\<close>s, modelled as integers without a
  bound: in a raster \<open>readCRAW\<close> or \<open>readraw14\<close> builds, width and height are \<^verbatim>\<open>uint16\<close>
  values, every index stays below \<open>2 ^ 33\<close> and nothing wraps.
\<close>

text \<open>
  The fill loops of \<open>readCRAW\<close> (lines 289 to 306).  Each inner loop advances \<open>x\<close> twice per
  turn, the outer loop \<open>y\<close>; \<open>S\<close>, \<open>W\<close> and \<open>H\<close> are \<^verbatim>\<open>img.Stride\<close>, \<^verbatim>\<open>img.Rect.Max.X\<close> and
  \<^verbatim>\<open>img.Rect.Max.Y\<close>.  In \<open>craw_fill_lower\<close> the row \<open>y\<close> is the one after \<^verbatim>\<open>y++\<close>.
\<close>

function craw_fill_upper :: "int \<Rightarrow> int \<Rightarrow> int \<Rightarrow> int \<Rightarrow> pixel16 list \<Rightarrow> pixel16 list option" where
  "craw_fill_upper S W y x pix =
     (if x < W then do {
        pix \<leftarrow> copyG pix (y * S + x) (y * S + x + 1);
        pix \<leftarrow> copyB pix (y * S + x) ((y + 1) * S + x + 1);
        pix \<leftarrow> copyR pix (y * S + (x + 1)) (y * S + (x + 1) - 1);
        pix \<leftarrow> copyB pix (y * S + (x + 1)) ((y + 1) * S + (x + 1));
        craw_fill_upper S W y (x + 1 + 1) pix
      } else Some pix)"
  by pat_completeness auto
termination
  by (relation "measure (\<lambda>(S, W, y, x, pix). nat (W - x))") auto

function craw_fill_lower :: "int \<Rightarrow> int \<Rightarrow> int \<Rightarrow> int \<Rightarrow> pixel16 list \<Rightarrow> pixel16 list option" where
  "craw_fill_lower S W y x pix =
     (if x < W then do {
        pix \<leftarrow> copyR pix (y * S + x) ((y - 1) * S + x);
        pix \<leftarrow> copyB pix (y * S + x) (y * S + x + 1);
        pix \<leftarrow> copyR pix (y * S + (x + 1)) ((y - 1) * S + (x + 1) - 1);
        pix \<leftarrow> copyG pix (y * S + (x + 1)) (y * S + (x + 1) - 1);
        craw_fill_lower S W y (x + 1 + 1) pix
      } else Some pix)"
  by pat_completeness auto
termination
  by (relation "measure (\<lambda>(S, W, y, x, pix). nat (W - x))") auto

function craw_fill_rows :: "int \<Rightarrow> int \<Rightarrow> int \<Rightarrow> int \<Rightarrow> pixel16 list \<Rightarrow> pixel16 list option" where
  "craw_fill_rows S W H y pix =
     (if y < H then do {
        pix \<leftarrow> craw_fill_upper S W y 0 pix;
        pix \<leftarrow> craw_fill_lower S W (y + 1) 0 pix;
        craw_fill_rows S W H (y + 1 + 1) pix
      } else Some pix)"
  by pat_completeness auto
termination
  by (relation "measure (\<lambda>(S, W, H, y, pix). nat (H - y))") auto

definition craw_fill :: "RGB14 \<Rightarrow> RGB14 option" where
  "craw_fill img =
     map_option (\<lambda>pix. img\<lparr>Pix := pix\<rparr>)
       (craw_fill_rows (Stride img) (X (Max' (Rect img))) (Y (Max' (Rect img))) 0 (Pix img))"


declare craw_fill_upper.simps [simp del] craw_fill_lower.simps [simp del]
  craw_fill_rows.simps [simp del]

text \<open>The fill loops of \<open>readraw14\<close> (lines 373 to 390), written out again as in the source.\<close>

function raw14_fill_upper :: "int \<Rightarrow> int \<Rightarrow> int \<Rightarrow> int \<Rightarrow> pixel16 list \<Rightarrow> pixel16 list option" where
  "raw14_fill_upper S W y x pix =
     (if x < W then do {
        pix \<leftarrow> copyG pix (y * S + x) (y * S + x + 1);
        pix \<leftarrow> copyB pix (y * S + x) ((y + 1) * S + x + 1);
        pix \<leftarrow> copyR pix (y * S + (x + 1)) (y * S + (x + 1) - 1);
        pix \<leftarrow> copyB pix (y * S + (x + 1)) ((y + 1) * S + (x + 1));
        raw14_fill_upper S W y (x + 1 + 1) pix
      } else Some pix)"
  by pat_completeness auto
termination
  by (relation "measure (\<lambda>(S, W, y, x, pix). nat (W - x))") auto

function raw14_fill_lower :: "int \<Rightarrow> int \<Rightarrow> int \<Rightarrow> int \<Rightarrow> pixel16 list \<Rightarrow> pixel16 list option" where
  "raw14_fill_lower S W y x pix =
     (if x < W then do {
        pix \<leftarrow> copyR pix (y * S + x) ((y - 1) * S + x);
        pix \<leftarrow> copyB pix (y * S + x) (y * S + x + 1);
        pix \<leftarrow> copyR pix (y * S + (x + 1)) ((y - 1) * S + (x + 1) - 1);
        pix \<leftarrow> copyG pix (y * S + (x + 1)) (y * S + (x + 1) - 1);
        raw14_fill_lower S W y (x + 1 + 1) pix
      } else Some pix)"
  by pat_completeness auto
termination
  by (relation "measure (\<lambda>(S, W, y, x, pix). nat (W - x))") auto

function raw14_fill_rows :: "int \<Rightarrow> int \<Rightarrow> int \<Rightarrow> int \<Rightarrow> pixel16 list \<Rightarrow> pixel16 list option" where
  "raw14_fill_rows S W H y pix =
     (if y < H then do {
        pix \<leftarrow> raw14_fill_upper S W y 0 pix;
        pix \<leftarrow> raw14_fill_lower S W (y + 1) 0 pix;
        raw14_fill_rows S W H (y + 1 + 1) pix
      } else Some pix)"
  by pat_completeness auto
termination
  by (relation "measure (\<lambda>(S, W, H, y, pix). nat (H - y))") auto

declare raw14_fill_upper.simps [simp del] raw14_fill_lower.simps [simp del]
  raw14_fill_rows.simps [simp del]

definition raw14_fill :: "RGB14 \<Rightarrow> RGB14 option" where
  "raw14_fill img =
     map_option (\<lambda>pix. img\<lparr>Pix := pix\<rparr>)
       (raw14_fill_rows (Stride img) (X (Max' (Rect img))) (Y (Max' (Rect img))) 0 (Pix img))"

subsection \<open>The copy rule of the specification\<close>

text \<open>
  The raster \<open>readCRAW\<close> and \<open>readraw14\<close> work on: made by \<open>NewRGB14\<close> for the rectangle
  \<^verbatim>\<open>image.Rect(0, 0, int(rw.width), int(rw.height))\<close>, its cells then written in place.
\<close>

definition raster_of :: "u16 \<Rightarrow> u16 \<Rightarrow> RGB14 \<Rightarrow> bool" where
  "raster_of w h img \<longleftrightarrow>
     Stride img = uint w \<and> Rect img = image_Rect 0 0 (uint w) (uint h) \<and>
     length (Pix img) = nat (uint w * uint h)"

text \<open>The cell in column \<open>x\<close> of row \<open>y\<close>.\<close>

definition cell :: "RGB14 \<Rightarrow> int \<Rightarrow> int \<Rightarrow> pixel16" where
  "cell img x y = Pix img ! nat (y * Stride img + x)"

text \<open>
  The copy rule of section 4.4 of the specification for the 2 by 2 tile whose upper left
  cell is \<open>(x, y)\<close>: \<open>img\<close> is the raster before the pass and \<open>img'\<close> the raster after it.
\<close>

definition tile_filled :: "RGB14 \<Rightarrow> RGB14 \<Rightarrow> int \<Rightarrow> int \<Rightarrow> bool" where
  "tile_filled img img' x y \<longleftrightarrow>
     cell img' x y =
       (cell img x y)\<lparr>G := G (cell img (x + 1) y), B := B (cell img (x + 1) (y + 1))\<rparr> \<and>
     cell img' (x + 1) y =
       (cell img (x + 1) y)\<lparr>R := R (cell img x y), B := B (cell img (x + 1) (y + 1))\<rparr> \<and>
     cell img' x (y + 1) =
       (cell img x (y + 1))\<lparr>R := R (cell img x y), B := B (cell img (x + 1) (y + 1))\<rparr> \<and>
     cell img' (x + 1) (y + 1) =
       (cell img (x + 1) (y + 1))\<lparr>R := R (cell img x y), G := G (cell img x (y + 1))\<rparr>"

text \<open>
  The same rule cell by cell, on the index \<open>i\<close> of a cell in a raster of width \<open>W\<close>: the
  parities of the row \<open>i div W\<close> and of the column \<open>i mod W\<close> select the two copies.
\<close>

definition fill_cell :: "pixel16 list \<Rightarrow> int \<Rightarrow> int \<Rightarrow> pixel16" where
  "fill_cell orig W i =
     (let p = orig ! nat i in
      if even (i div W) then
        (if even (i mod W)
         then p\<lparr>G := G (orig ! nat (i + 1)), B := B (orig ! nat (i + W + 1))\<rparr>
         else p\<lparr>R := R (orig ! nat (i - 1)), B := B (orig ! nat (i + W))\<rparr>)
      else
        (if even (i mod W)
         then p\<lparr>R := R (orig ! nat (i - W)), B := B (orig ! nat (i + 1))\<rparr>
         else p\<lparr>R := R (orig ! nat (i - W - 1)), G := G (orig ! nat (i - 1))\<rparr>))"

text \<open>The cells before the index \<open>n\<close> are filled, the others are as they were.\<close>

definition filled :: "pixel16 list \<Rightarrow> int \<Rightarrow> int \<Rightarrow> pixel16 list \<Rightarrow> bool" where
  "filled orig W n pix \<longleftrightarrow>
     length pix = length orig \<and>
     (\<forall>i. 0 \<le> i \<and> i < int (length orig) \<longrightarrow>
        pix ! nat i = (if i < n then fill_cell orig W i else orig ! nat i))"


subsection \<open>Concrete rasters\<close>


definition raster_2x2 :: RGB14 where
  "raster_2x2 =
     \<lparr>Pix = [\<lparr>R = 10, G = 0, B = 0, pad = 0\<rparr>, \<lparr>R = 0, G = 20, B = 0, pad = 0\<rparr>,
             \<lparr>R = 0, G = 30, B = 0, pad = 0\<rparr>, \<lparr>R = 0, G = 0, B = 40, pad = 0\<rparr>],
      Stride = 2, Rect = image_Rect 0 0 2 2\<rparr>"

subsection \<open>The bodies of the inner loops\<close>

text \<open>One turn of the upper loop and one turn of the lower loop, as functions of their own.\<close>

definition upper_body :: "int \<Rightarrow> int \<Rightarrow> int \<Rightarrow> pixel16 list \<Rightarrow> pixel16 list option" where
  "upper_body S y x pix = do {
     pix \<leftarrow> copyG pix (y * S + x) (y * S + x + 1);
     pix \<leftarrow> copyB pix (y * S + x) ((y + 1) * S + x + 1);
     pix \<leftarrow> copyR pix (y * S + (x + 1)) (y * S + (x + 1) - 1);
     copyB pix (y * S + (x + 1)) ((y + 1) * S + (x + 1)) }"

definition lower_body :: "int \<Rightarrow> int \<Rightarrow> int \<Rightarrow> pixel16 list \<Rightarrow> pixel16 list option" where
  "lower_body S y x pix = do {
     pix \<leftarrow> copyR pix (y * S + x) ((y - 1) * S + x);
     pix \<leftarrow> copyB pix (y * S + x) (y * S + x + 1);
     pix \<leftarrow> copyR pix (y * S + (x + 1)) ((y - 1) * S + (x + 1) - 1);
     copyG pix (y * S + (x + 1)) (y * S + (x + 1) - 1) }"

text \<open>What the pass makes of \<open>raster_2x2\<close>.\<close>

definition filled_2x2 :: RGB14 where
  "filled_2x2 =
     \<lparr>Pix = [\<lparr>R = 10, G = 20, B = 40, pad = 0\<rparr>, \<lparr>R = 10, G = 20, B = 40, pad = 0\<rparr>,
             \<lparr>R = 10, G = 30, B = 40, pad = 0\<rparr>, \<lparr>R = 10, G = 30, B = 40, pad = 0\<rparr>],
      Stride = 2, Rect = image_Rect 0 0 2 2\<rparr>"

section \<open>Floating point\<close>

text \<open>
  The arithmetic of \<^verbatim>\<open>float64\<close> is a parameter of the model: a type \<open>'f\<close> of values with the
  operations the source uses.  \<open>flit\<close> is the conversion of a constant of the source to
  \<^verbatim>\<open>float64\<close>, \<open>f_of_u32\<close> and \<open>f_of_i16\<close> are \<^verbatim>\<open>float64(v)\<close> for a \<^verbatim>\<open>uint32\<close> and an
  \<^verbatim>\<open>int16\<close>, \<open>u32_of_f\<close> is \<^verbatim>\<open>uint32(v)\<close>.  What is proved for every such record holds
  whatever the rounding of the machine is.
\<close>

record 'f fops =
  fadd :: "'f \<Rightarrow> 'f \<Rightarrow> 'f"
  fmul :: "'f \<Rightarrow> 'f \<Rightarrow> 'f"
  fdiv :: "'f \<Rightarrow> 'f \<Rightarrow> 'f"
  fgt :: "'f \<Rightarrow> 'f \<Rightarrow> bool"
  flit :: "rat \<Rightarrow> 'f"
  f_of_u32 :: "u32 \<Rightarrow> 'f"
  f_of_i16 :: "u16 \<Rightarrow> 'f"
  u32_of_f :: "'f \<Rightarrow> u32"

text \<open>
  The arithmetic without rounding: a value is a real number and every operation returns the
  exact result.  \<^verbatim>\<open>uint32(v)\<close> drops the fraction; Go leaves its result open when the
  value does not fit the type, and the model takes the low 32 bits there.
\<close>

definition exact_ops :: "real fops" where
  "exact_ops =
     \<lparr>fadd = (+), fmul = (*), fdiv = (/), fgt = (\<lambda>a b. a > b), flit = of_rat,
      f_of_u32 = (\<lambda>w. real (unat w)), f_of_i16 = (\<lambda>w. real_of_int (sint w)),
      u32_of_f = (\<lambda>r. word_of_int (if 0 \<le> r then \<lfloor>r\<rfloor> else \<lceil>r\<rceil>))\<rparr>"

section \<open>The gamma curve and the pixel corrector\<close>

text \<open>
  \<open>gamma\<close> reads the global \<^verbatim>\<open>xfactors\<close>, which \<open>gammacorrect\<close> writes: the array is the
  argument \<open>xf\<close> here, a function on the indices 0 to 5 (\<open>gamma\<close> is \<open>gamma'\<close> here).
\<close>

definition gamma' :: "'f fops \<Rightarrow> (nat \<Rightarrow> 'f) \<Rightarrow> 'f \<Rightarrow> 'f" where
  "gamma' ops xf x =
     (if fgt ops x (flit ops 0x3fff) then flit ops 0x3fff
      else
        (let x = fdiv ops x (flit ops 0xCCC);
             x5 = fmul ops (fmul ops (fmul ops (fmul ops (fmul ops (xf 5) x) x) x) x) x;
             x4 = fmul ops (fmul ops (fmul ops (fmul ops (xf 4) x) x) x) x;
             x3 = fmul ops (fmul ops (fmul ops (xf 3) x) x) x;
             x2 = fmul ops (fmul ops (xf 2) x) x;
             x1 = fmul ops (xf 1) x;
             x0 = fmul ops (xf 0) (flit ops 1);
             val = fadd ops (fadd ops (fadd ops (fadd ops (fadd ops x5 x4) x3) x2) x1) x0
         in val))"

definition gammaspace :: rat where
  "gammaspace = 1596472423 / 1000000000"

definition process :: "'f fops \<Rightarrow> (nat \<Rightarrow> 'f) \<Rightarrow> u32 \<Rightarrow> u32 \<Rightarrow> 'f \<Rightarrow> u32" where
  "process ops xf cur black whiteBalance =
     (if cur \<le> black then cur
      else
        (let cur = cur - black;
             balanced = fmul ops (f_of_u32 ops cur) whiteBalance
         in u32_of_f ops (fmul ops (gamma' ops xf balanced) (flit ops gammaspace))))"

text \<open>
  \<open>vandermonde\<close> and \<open>gammacorrect\<close>.  The matrices of \<^verbatim>\<open>gonum/matrix/mat64\<close> are lists of
  rows; its least-squares solver (\<^verbatim>\<open>QR.Factorize\<close>, \<^verbatim>\<open>SolveQR\<close>) is the parameter \<open>solve\<close>,
  which returns the column \<open>c\<close> as a function on its row indices.
\<close>

fun powers :: "'f fops \<Rightarrow> 'f \<Rightarrow> 'f \<Rightarrow> nat \<Rightarrow> 'f list" where
  "powers ops a p 0 = []"
| "powers ops a p (Suc n) = p # powers ops a (fmul ops p a) n"

definition vandermonde :: "'f fops \<Rightarrow> 'f list \<Rightarrow> nat \<Rightarrow> 'f list list" where
  "vandermonde ops a degree = map (\<lambda>ai. powers ops ai (flit ops 1) (degree + 1)) a"

definition gammacorrect ::
  "'f fops \<Rightarrow> ('f list list \<Rightarrow> 'f list \<Rightarrow> nat \<Rightarrow> 'f) \<Rightarrow> u32 list \<Rightarrow> nat \<Rightarrow> 'f" where
  "gammacorrect ops solve curve =
     (let x = map (flit ops) [0, 1, 2, 3, 4, 5];
          y = [flit ops 0, f_of_u32 ops (curve ! 0), f_of_u32 ops (curve ! 1),
               f_of_u32 ops (curve ! 2), f_of_u32 ops (curve ! 3), flit ops 0x3fff];
          a = vandermonde ops x 5;
          c = solve a y
      in c)"

text \<open>The white-balance ratios of \<open>readCRAW\<close> and \<open>readraw14\<close>; \<^verbatim>\<open>int16\<close>s are compared signed.\<close>

definition maxBalance :: "u16 list \<Rightarrow> u16" where
  "maxBalance wb =
     (let m = (if sint (wb ! 0) > sint (wb ! 1) then wb ! 0 else wb ! 1);
          m = (if sint (wb ! 2) > sint m then wb ! 2 else m);
          m = (if sint (wb ! 3) > sint m then wb ! 3 else m)
      in m)"

definition whiteBalanceRGGB :: "'f fops \<Rightarrow> u16 list \<Rightarrow> 'f list" where
  "whiteBalanceRGGB ops wb =
     [fdiv ops (f_of_i16 ops (wb ! 0)) (f_of_i16 ops (maxBalance wb)),
      fdiv ops (f_of_i16 ops (wb ! 1)) (f_of_i16 ops (maxBalance wb)),
      fdiv ops (f_of_i16 ops (wb ! 2)) (f_of_i16 ops (maxBalance wb)),
      fdiv ops (f_of_i16 ops (wb ! 3)) (f_of_i16 ops (maxBalance wb))]"

section \<open>The channel-write passes\<close>

text \<open>
  One assignment \<^verbatim>\<open>img.Pix[i].R = v\<close> (and the same for \<open>G\<close> and \<open>B\<close>), and one read \<^verbatim>\<open>xs[i]\<close>;
  \<open>None\<close> is the panic of an index out of range.
\<close>

definition setR :: "pixel16 list \<Rightarrow> int \<Rightarrow> u16 \<Rightarrow> pixel16 list option" where
  "setR pix i v = (if in_range pix i then Some (pix[nat i := (pix ! nat i)\<lparr>R := v\<rparr>]) else None)"

definition setG :: "pixel16 list \<Rightarrow> int \<Rightarrow> u16 \<Rightarrow> pixel16 list option" where
  "setG pix i v = (if in_range pix i then Some (pix[nat i := (pix ! nat i)\<lparr>G := v\<rparr>]) else None)"

definition setB :: "pixel16 list \<Rightarrow> int \<Rightarrow> u16 \<Rightarrow> pixel16 list option" where
  "setB pix i v = (if in_range pix i then Some (pix[nat i := (pix ! nat i)\<lparr>B := v\<rparr>]) else None)"

definition index :: "'a list \<Rightarrow> int \<Rightarrow> 'a option" where
  "index xs i = (if in_range xs i then Some (xs ! nat i) else None)"

text \<open>
  The slice expression \<^verbatim>\<open>buf[lo:hi]\<close>; the capacity of \<open>buf\<close> is taken to be its length.
\<close>

definition slice :: "'a list \<Rightarrow> int \<Rightarrow> int \<Rightarrow> 'a list option" where
  "slice xs lo hi =
     (if 0 \<le> lo \<and> lo \<le> hi \<and> hi \<le> int (length xs)
      then Some (take (nat (hi - lo)) (drop (nat lo) xs)) else None)"

subsection \<open>The compressed strategy\<close>

text \<open>
  The block codec of the compressed strategy (\<open>readCrawBlock\<close>, \<open>Decompress\<close>), the constant
  \<open>pixelBlockSize\<close> and the type \<^verbatim>\<open>pixel\<close> with its conversions \<^verbatim>\<open>pixel(v)\<close>, \<^verbatim>\<open>uint32(p)\<close>
  and \<^verbatim>\<open>uint16(p)\<close> are declared outside \<^verbatim>\<open>readraw.go\<close>.  They are parameters of the model,
  \<open>'blk\<close> being the type of a block read and \<open>'p\<close> the type \<^verbatim>\<open>pixel\<close>.
\<close>

record ('blk, 'p) codec =
  readCrawBlock :: "u8 list \<Rightarrow> 'blk"
  Decompress :: "'blk \<Rightarrow> 'p list"
  pixelBlockSize :: int
  pixel_of_u32 :: "u32 \<Rightarrow> 'p"
  u32_of_pixel :: "'p \<Rightarrow> u32"
  u16_of_pixel :: "'p \<Rightarrow> u16"

text \<open>
  \<^verbatim>\<open>for i := 0; i < pixelBlockSize; i++\<close> of an even row (lines 260 to 263) and of an odd
  row (lines 282 to 285).
\<close>

function craw_store_even ::
  "('blk, 'p) codec \<Rightarrow> 'p list \<Rightarrow> 'p list \<Rightarrow> int \<Rightarrow> int \<Rightarrow> pixel16 list \<Rightarrow> pixel16 list option" where
  "craw_store_even C red green base i pix =
     (if i < pixelBlockSize C then do {
        r \<leftarrow> index red i;
        pix \<leftarrow> setR pix (base + (i * 2)) (u16_of_pixel C r);
        g \<leftarrow> index green i;
        pix \<leftarrow> setG pix (base + (i * 2) + 1) (u16_of_pixel C g);
        craw_store_even C red green base (i + 1) pix
      } else Some pix)"
  by pat_completeness auto
termination
  by (relation "measure (\<lambda>(C, red, green, base, i, pix). nat (pixelBlockSize C - i))") auto

function craw_store_odd ::
  "('blk, 'p) codec \<Rightarrow> 'p list \<Rightarrow> 'p list \<Rightarrow> int \<Rightarrow> int \<Rightarrow> pixel16 list \<Rightarrow> pixel16 list option" where
  "craw_store_odd C green blue base i pix =
     (if i < pixelBlockSize C then do {
        g \<leftarrow> index green i;
        pix \<leftarrow> setG pix (base + (i * 2)) (u16_of_pixel C g);
        b \<leftarrow> index blue i;
        pix \<leftarrow> setB pix (base + (i * 2) + 1) (u16_of_pixel C b);
        craw_store_odd C green blue base (i + 1) pix
      } else Some pix)"
  by pat_completeness auto
termination
  by (relation "measure (\<lambda>(C, green, blue, base, i, pix). nat (pixelBlockSize C - i))") auto

declare craw_store_even.simps [simp del] craw_store_odd.simps [simp del]

text \<open>
  The two branches of \<^verbatim>\<open>if y%2 == 0\<close> (lines 242 to 286), for the block at column \<open>x\<close> of the
  row \<open>y\<close>; \<open>bl\<close> is \<^verbatim>\<open>rw.blackLevel\<close> and \<open>wb\<close> is \<^verbatim>\<open>whiteBalanceRGGB\<close>.
\<close>

definition craw_block_even ::
  "'f fops \<Rightarrow> ('blk, 'p) codec \<Rightarrow> (nat \<Rightarrow> 'f) \<Rightarrow> u16 list \<Rightarrow> 'f list \<Rightarrow> u8 list \<Rightarrow> int \<Rightarrow> int \<Rightarrow> int
     \<Rightarrow> pixel16 list \<Rightarrow> pixel16 list option" where
  "craw_block_even ops C xf bl wb buf S y x pix = do {
     let base = y * S + x;
     b \<leftarrow> slice buf base (base + pixelBlockSize C);
     let red = Decompress C (readCrawBlock C b);
     b \<leftarrow> slice buf (base + pixelBlockSize C) (base + pixelBlockSize C + pixelBlockSize C);
     let green = Decompress C (readCrawBlock C b);
     let red = map (\<lambda>v. pixel_of_u32 C (process ops xf (u32_of_pixel C v) (ucast (bl ! 0)) (wb ! 0))) red;
     let green = map (\<lambda>v. pixel_of_u32 C (process ops xf (u32_of_pixel C v) (ucast (bl ! 1)) (wb ! 1))) green;
     craw_store_even C red green base 0 pix }"

definition craw_block_odd ::
  "'f fops \<Rightarrow> ('blk, 'p) codec \<Rightarrow> (nat \<Rightarrow> 'f) \<Rightarrow> u16 list \<Rightarrow> 'f list \<Rightarrow> u8 list \<Rightarrow> int \<Rightarrow> int \<Rightarrow> int
     \<Rightarrow> pixel16 list \<Rightarrow> pixel16 list option" where
  "craw_block_odd ops C xf bl wb buf S y x pix = do {
     let base = y * S + x;
     b \<leftarrow> slice buf base (base + pixelBlockSize C);
     let green = Decompress C (readCrawBlock C b);
     b \<leftarrow> slice buf (base + pixelBlockSize C) (base + pixelBlockSize C + pixelBlockSize C);
     let blue = Decompress C (readCrawBlock C b);
     let green = map (\<lambda>v. pixel_of_u32 C (process ops xf (u32_of_pixel C v) (ucast (bl ! 0)) (wb ! 0))) green;
     let blue = map (\<lambda>v. pixel_of_u32 C (process ops xf (u32_of_pixel C v) (ucast (bl ! 1)) (wb ! 1))) blue;
     craw_store_odd C green blue base 0 pix }"

text \<open>The loops over \<open>x\<close> (in steps of 32) and over \<open>y\<close> (lines 240 to 288).\<close>

function craw_write_row ::
  "'f fops \<Rightarrow> ('blk, 'p) codec \<Rightarrow> (nat \<Rightarrow> 'f) \<Rightarrow> u16 list \<Rightarrow> 'f list \<Rightarrow> u8 list \<Rightarrow> int \<Rightarrow> int \<Rightarrow> int
     \<Rightarrow> int \<Rightarrow> pixel16 list \<Rightarrow> pixel16 list option" where
  "craw_write_row ops C xf bl wb buf S W y x pix =
     (if x < W then do {
        pix \<leftarrow> (if y mod 2 = 0 then craw_block_even ops C xf bl wb buf S y x pix
                else craw_block_odd ops C xf bl wb buf S y x pix);
        craw_write_row ops C xf bl wb buf S W y (x + 32) pix
      } else Some pix)"
  by pat_completeness auto
termination
  by (relation "measure (\<lambda>(ops, C, xf, bl, wb, buf, S, W, y, x, pix). nat (W - x))") auto

function craw_write_rows ::
  "'f fops \<Rightarrow> ('blk, 'p) codec \<Rightarrow> (nat \<Rightarrow> 'f) \<Rightarrow> u16 list \<Rightarrow> 'f list \<Rightarrow> u8 list \<Rightarrow> int \<Rightarrow> int \<Rightarrow> int
     \<Rightarrow> int \<Rightarrow> pixel16 list \<Rightarrow> pixel16 list option" where
  "craw_write_rows ops C xf bl wb buf S W H y pix =
     (if y < H then do {
        pix \<leftarrow> craw_write_row ops C xf bl wb buf S W y 0 pix;
        craw_write_rows ops C xf bl wb buf S W H (y + 1) pix
      } else Some pix)"
  by pat_completeness auto
termination
  by (relation "measure (\<lambda>(ops, C, xf, bl, wb, buf, S, W, H, y, pix). nat (H - y))") auto

declare craw_write_row.simps [simp del] craw_write_rows.simps [simp del]

text \<open>\<open>readCRAW\<close>; \<open>None\<close> is a panic.\<close>

definition readCRAW ::
  "'f fops \<Rightarrow> ('f list list \<Rightarrow> 'f list \<Rightarrow> nat \<Rightarrow> 'f) \<Rightarrow> ('blk, 'p) codec \<Rightarrow> u8 list \<Rightarrow> 'k rawDetails
     \<Rightarrow> RGB14 option" where
  "readCRAW ops solve C buf rw = do {
     img \<leftarrow> NewRGB14 (image_Rect 0 0 (uint (width rw)) (uint (height rw)));
     let xf = gammacorrect ops solve
                [ucast (gammaCurve rw ! 0), ucast (gammaCurve rw ! 1),
                 ucast (gammaCurve rw ! 2), ucast (gammaCurve rw ! 3)];
     let wb = whiteBalanceRGGB ops (WhiteBalance rw);
     pix \<leftarrow> craw_write_rows ops C xf (blackLevel rw) wb buf (Stride img)
              (X (Max' (Rect img))) (Y (Max' (Rect img))) 0 (Pix img);
     craw_fill (img\<lparr>Pix := pix\<rparr>) }"

subsection \<open>The linear strategy\<close>

text \<open>
  The byte buffer seen as 16-bit samples in the byte order of the machine (the source
  rewrites the slice header): little-endian, as on amd64 and arm64.
\<close>

fun samples :: "u8 list \<Rightarrow> u16 list" where
  "samples (lo # hi # bs) = (ucast lo OR push_bit 8 (ucast hi)) # samples bs"
| "samples _ = []"

text \<open>The write loops of \<open>readraw14\<close> (lines 348 to 371).\<close>

function raw14_write_upper ::
  "'f fops \<Rightarrow> (nat \<Rightarrow> 'f) \<Rightarrow> u16 list \<Rightarrow> 'f list \<Rightarrow> u16 list \<Rightarrow> int \<Rightarrow> int \<Rightarrow> int \<Rightarrow> int
     \<Rightarrow> pixel16 list \<Rightarrow> pixel16 list option" where
  "raw14_write_upper ops xf bl wb data S W y x pix =
     (if x < W then do {
        cur \<leftarrow> index data (y * S + x);
        let cur = process ops xf (ucast cur) (ucast (bl ! 0)) (wb ! 0);
        pix \<leftarrow> setR pix (y * S + x) (ucast cur);
        cur \<leftarrow> index data (y * S + (x + 1));
        let cur = process ops xf (ucast cur) (ucast (bl ! 1)) (wb ! 1);
        pix \<leftarrow> setG pix (y * S + (x + 1)) (ucast cur);
        raw14_write_upper ops xf bl wb data S W y (x + 1 + 1) pix
      } else Some pix)"
  by pat_completeness auto
termination
  by (relation "measure (\<lambda>(ops, xf, bl, wb, data, S, W, y, x, pix). nat (W - x))") auto

function raw14_write_lower ::
  "'f fops \<Rightarrow> (nat \<Rightarrow> 'f) \<Rightarrow> u16 list \<Rightarrow> 'f list \<Rightarrow> u16 list \<Rightarrow> int \<Rightarrow> int \<Rightarrow> int \<Rightarrow> int
     \<Rightarrow> pixel16 list \<Rightarrow> pixel16 list option" where
  "raw14_write_lower ops xf bl wb data S W y x pix =
     (if x < W then do {
        cur \<leftarrow> index data (y * S + x);
        let cur = process ops xf (ucast cur) (ucast (bl ! 2)) (wb ! 2);
        pix \<leftarrow> setG pix (y * S + x) (ucast cur);
        cur \<leftarrow> index data (y * S + (x + 1));
        let cur = process ops xf (ucast cur) (ucast (bl ! 3)) (wb ! 3);
        pix \<leftarrow> setB pix (y * S + (x + 1)) (ucast cur);
        raw14_write_lower ops xf bl wb data S W y (x + 1 + 1) pix
      } else Some pix)"
  by pat_completeness auto
termination
  by (relation "measure (\<lambda>(ops, xf, bl, wb, data, S, W, y, x, pix). nat (W - x))") auto

function raw14_write_rows ::
  "'f fops \<Rightarrow> (nat \<Rightarrow> 'f) \<Rightarrow> u16 list \<Rightarrow> 'f list \<Rightarrow> u16 list \<Rightarrow> int \<Rightarrow> int \<Rightarrow> int \<Rightarrow> int
     \<Rightarrow> pixel16 list \<Rightarrow> pixel16 list option" where
  "raw14_write_rows ops xf bl wb data S W H y pix =
     (if y < H then do {
        pix \<leftarrow> raw14_write_upper ops xf bl wb data S W y 0 pix;
        pix \<leftarrow> raw14_write_lower ops xf bl wb data S W (y + 1) 0 pix;
        raw14_write_rows ops xf bl wb data S W H (y + 1 + 1) pix
      } else Some pix)"
  by pat_completeness auto
termination
  by (relation "measure (\<lambda>(ops, xf, bl, wb, data, S, W, H, y, pix). nat (H - y))") auto

declare raw14_write_upper.simps [simp del] raw14_write_lower.simps [simp del]
  raw14_write_rows.simps [simp del]

definition readraw14 ::
  "'f fops \<Rightarrow> ('f list list \<Rightarrow> 'f list \<Rightarrow> nat \<Rightarrow> 'f) \<Rightarrow> u8 list \<Rightarrow> 'k rawDetails \<Rightarrow> RGB14 option" where
  "readraw14 ops solve buf rw = do {
     let data = samples buf;
     img \<leftarrow> NewRGB14 (image_Rect 0 0 (uint (width rw)) (uint (height rw)));
     let xf = gammacorrect ops solve
                [ucast (gammaCurve rw ! 0), ucast (gammaCurve rw ! 1),
                 ucast (gammaCurve rw ! 2), ucast (gammaCurve rw ! 3)];
     let wb = whiteBalanceRGGB ops (WhiteBalance rw);
     pix \<leftarrow> raw14_write_rows ops xf (blackLevel rw) wb data (Stride img)
              (X (Max' (Rect img))) (Y (Max' (Rect img))) 0 (Pix img);
     raw14_fill (img\<lparr>Pix := pix\<rparr>) }"

subsection \<open>The corrector of the specification\<close>




subsection \<open>Concrete curves and a concrete block codec\<close>


definition identity_curve :: "nat \<Rightarrow> real" where
  "identity_curve k = (if k = 1 then 3276 else 0)"

text \<open>
  The line through \<open>(0, 0)\<close> and \<open>(5, 0x3FFF)\<close>, the two fixed ends of every fitted curve.
\<close>

definition line_curve :: "nat \<Rightarrow> real" where
  "line_curve k = (if k = 1 then 16383 / 5 else 0)"





section \<open>Properties of extractDetails\<close>

lemma meta_loop_other_tags:
  "\<forall>f\<in>set pre. Tag f \<noteq> SubIFDs \<and> Tag f \<noteq> DNGPrivateData \<Longrightarrow>
     meta_loop E (pre @ rest) st = meta_loop E rest st"
  by (induction pre arbitrary: st) (simp_all add: subIFD_part_def dng_part_def split: prod.splits)

lemma extractDetails_cases:
  "ParseHeader E rs = (rsa, h, herr) \<Longrightarrow>
   ExtractMetaData E rsa (uint (hdrOffset h)) 0 = (rsb, meta, err) \<Longrightarrow>
     extractDetails E rs =
       (case err of
          Some e \<Rightarrow> Return (zero_rawDetails (sonyRawFile E 0)) (Some e)
        | None \<Rightarrow> meta_loop E (FIA meta) (rsb, zero_rawDetails (sonyRawFile E 0)))"
  by (simp add: extractDetails_def Let_def)

text \<open>
  C1.  The claim: when the decrypted buffer of the private sub-tree does not parse as a tag
  list, \<open>extractDetails\<close> returns the error to its caller and never ends the process.  The
  code does otherwise: where the top-level tag list reaches a private-data tag (no
  sub-IFD or private-data tag before it) whose sub-tree parses and whose decrypted buffer
  does not, \<open>extractDetails\<close> ends in \<^verbatim>\<open>log.Fatal\<close> with that error; nothing is returned.
\<close>

theorem extractDetails_sr2_parse_failure_is_fatal:
  assumes "ParseHeader E rs = (rsa, h, herr)"
    and "ExtractMetaData E rsa (uint (hdrOffset h)) 0 = (rsb, meta, None)"
    and "FIA meta = pre @ fia # post"
    and "\<forall>f\<in>set pre. Tag f \<noteq> SubIFDs \<and> Tag f \<noteq> DNGPrivateData"
    and "Tag fia = DNGPrivateData"
    and "ExtractMetaData E rsb (uint (Offset fia)) 0 = (rsc, dng, None)"
    and "dng_loop (FIA dng) = (soff, slen, skey)"
    and "DecryptSR2 E rsc soff slen = (rsd, buf)"
    and "ExtractMetaData E (NewReader E buf) 0 0 = (br, sub, Some err)"
  shows "extractDetails E rs = Fatal err"
proof -
  let ?z = "zero_rawDetails (sonyRawFile E 0)"
  have "extractDetails E rs = meta_loop E (pre @ fia # post) (rsb, ?z)"
    using extractDetails_cases [OF assms(1) assms(2)] assms(3) by simp
  also have "\<dots> = meta_loop E (fia # post) (rsb, ?z)"
    by (rule meta_loop_other_tags [OF assms(4)])
  also have "\<dots> = Fatal err"
    using assms(5-9) by (simp add: subIFD_part_def dng_part_def)
  finally show ?thesis .
qed

theorem extractDetails_sr2_parse_failure_is_fatal_witness:
  "extractDetails bad_sr2_file FileReader = Fatal ''short read''"
proof (rule extractDetails_sr2_parse_failure_is_fatal
    [where rsa = FileReader and h = "\<lparr>hdrOffset = 8\<rparr>" and herr = None and rsb = FileReader
       and meta = "ifd_of [(DNGPrivateData, 100)]" and pre = "[]"
       and fia = "\<lparr>Tag = DNGPrivateData, Offset = 100\<rparr>" and post = "[]"
       and rsc = FileReader
       and dng = "ifd_of [(SR2SubIFDOffset, 200), (SR2SubIFDLength, 16), (SR2SubIFDKey, 1)]"
       and soff = 200 and slen = 16 and skey = "[0xde, 0x0e, 0, 0]"
       and rsd = FileReader and buf = "[]" and br = "BytesReader []" and sub = "ifd_of []"])
  show "ParseHeader bad_sr2_file FileReader = (FileReader, \<lparr>hdrOffset = 8\<rparr>, None)"
    by (simp add: bad_sr2_file_def table_env_def)
  show "ExtractMetaData bad_sr2_file FileReader (uint (hdrOffset \<lparr>hdrOffset = 8\<rparr>)) 0 =
          (FileReader, ifd_of [(DNGPrivateData, 100)], None)"
    by (simp add: bad_sr2_file_def table_env_def)
  show "FIA (ifd_of [(DNGPrivateData, 100)]) = [] @ \<lparr>Tag = DNGPrivateData, Offset = 100\<rparr> # []"
    by (simp add: ifd_of_def)
  show "\<forall>f\<in>set []. Tag f \<noteq> SubIFDs \<and> Tag f \<noteq> DNGPrivateData"
    by simp
  show "Tag \<lparr>Tag = DNGPrivateData, Offset = 100\<rparr> = DNGPrivateData"
    by simp
  show "ExtractMetaData bad_sr2_file FileReader (uint (Offset \<lparr>Tag = DNGPrivateData, Offset = 100\<rparr>)) 0 =
          (FileReader, ifd_of [(SR2SubIFDOffset, 200), (SR2SubIFDLength, 16), (SR2SubIFDKey, 1)], None)"
    by (simp add: bad_sr2_file_def table_env_def)
  show "dng_loop (FIA (ifd_of [(SR2SubIFDOffset, 200), (SR2SubIFDLength, 16), (SR2SubIFDKey, 1)])) =
          (200, 16, [0xde, 0x0e, 0, 0])"
    by (simp add: dng_loop_def dng_tag_def ifd_of_def)
  show "DecryptSR2 bad_sr2_file FileReader 200 16 = (FileReader, [])"
    by (simp add: bad_sr2_file_def table_env_def)
  show "ExtractMetaData bad_sr2_file (NewReader bad_sr2_file []) 0 0 =
          (BytesReader [], ifd_of [], Some ''short read'')"
    by (simp add: bad_sr2_file_def table_env_def)
qed

text \<open>
  C2.  The claim: a tag list without the sub-IFD pointer makes \<open>extractDetails\<close> fail, and no
  zero-valued or partly filled record is returned.  The code has no check for a missing
  tag: on the file with no tag at all it returns the zero-valued record and a nil error.
\<close>

theorem extractDetails_missing_subIFD_counterexample:
  "SubIFDs \<notin> Tag ` set (FIA (ifd_of [])) \<and>
   extractDetails empty_file FileReader = Return (zero_rawDetails 0) None"
  by (simp add: extractDetails_def empty_file_def table_env_def ifd_of_def)

lemma sr2_tag_sensor:
  "sr2_tag sr2 i v rw = Some rw' \<Longrightarrow>
     rw'\<lparr>blackLevel := b, WhiteBalance := w\<rparr> = rw\<lparr>blackLevel := b, WhiteBalance := w\<rparr>"
  by (auto simp: sr2_tag_def split: IFDtag.splits option.splits)

lemma sr2_loop_sensor:
  "sr2_loop sr2 i vs rw = Some rw' \<Longrightarrow>
     rw'\<lparr>blackLevel := b, WhiteBalance := w\<rparr> = rw\<lparr>blackLevel := b, WhiteBalance := w\<rparr>"
proof (induction vs arbitrary: i rw)
  case Nil
  then show ?case by simp
next
  case (Cons v vs)
  from Cons.prems obtain rw1 where s: "sr2_tag sr2 i v rw = Some rw1"
    "sr2_loop sr2 (Suc i) vs rw1 = Some rw'"
    by (auto split: option.splits)
  show ?case
    using Cons.IH [OF s(2)] sr2_tag_sensor [OF s(1)] by simp
qed

lemma dng_part_sensor:
  "dng_part E fia (rs, rw) = Inr (rs', rw') \<Longrightarrow>
     rw'\<lparr>blackLevel := b, WhiteBalance := w\<rparr> = rw\<lparr>blackLevel := b, WhiteBalance := w\<rparr>"
  by (auto simp: dng_part_def Let_def split: if_splits prod.splits option.splits
      dest: sr2_loop_sensor)

lemma dng_part_return:
  "dng_part E fia (rs, rw) = Inl (Return rw' e) \<Longrightarrow> rw' = rw"
  by (auto simp: dng_part_def Let_def split: if_splits prod.splits option.splits)

lemma meta_loop_sensor:
  "\<forall>f\<in>set fs. Tag f \<noteq> SubIFDs \<Longrightarrow> meta_loop E fs (rs, rw) = Return rw' e \<Longrightarrow>
     rw'\<lparr>blackLevel := b, WhiteBalance := w\<rparr> = rw\<lparr>blackLevel := b, WhiteBalance := w\<rparr>"
proof (induction fs arbitrary: rs rw)
  case Nil
  then show ?case by simp
next
  case (Cons f fs)
  have s: "subIFD_part E f (rs, rw) = Inr (rs, rw)"
    using Cons.prems(1) by (simp add: subIFD_part_def)
  show ?case
  proof (cases "dng_part E f (rs, rw)")
    case (Inl out)
    then have "out = Return rw' e" using Cons.prems(2) s by simp
    then show ?thesis using dng_part_return Inl by fastforce
  next
    case (Inr st)
    obtain rs1 rw1 where st: "st = (rs1, rw1)" by (cases st)
    have "meta_loop E fs (rs1, rw1) = Return rw' e"
      using Cons.prems(2) s Inr st by simp
    then have "rw'\<lparr>blackLevel := b, WhiteBalance := w\<rparr> = rw1\<lparr>blackLevel := b, WhiteBalance := w\<rparr>"
      using Cons.IH Cons.prems(1) by simp
    then show ?thesis using dng_part_sensor Inr st by fastforce
  qed
qed

text \<open>
  C2, as amended: when the top-level tag list holds no sub-IFD pointer, \<open>extractDetails\<close>
  does not fail on that account.  If the list parses and holds no private-data tag either,
  the zero-valued record is returned together with a nil error; and whatever record is
  returned, all its fields but the black levels and the white balance (which the private
  block may set) are zero-valued.
\<close>

theorem extractDetails_without_subIFD:
  assumes "ParseHeader E rs = (rsa, h, herr)"
    and "ExtractMetaData E rsa (uint (hdrOffset h)) 0 = (rsb, meta, err)"
    and "\<forall>f\<in>set (FIA meta). Tag f \<noteq> SubIFDs"
  shows "(err = None \<and> (\<forall>f\<in>set (FIA meta). Tag f \<noteq> DNGPrivateData) \<longrightarrow>
            extractDetails E rs = Return (zero_rawDetails (sonyRawFile E 0)) None) \<and>
         (\<forall>rw e. extractDetails E rs = Return rw e \<longrightarrow>
            rw\<lparr>blackLevel := [0, 0, 0, 0], WhiteBalance := [0, 0, 0, 0]\<rparr> =
              zero_rawDetails (sonyRawFile E 0))"
proof (intro conjI allI impI)
  assume a: "err = None \<and> (\<forall>f\<in>set (FIA meta). Tag f \<noteq> DNGPrivateData)"
  then have b: "\<forall>f\<in>set (FIA meta). Tag f \<noteq> SubIFDs \<and> Tag f \<noteq> DNGPrivateData"
    using assms(3) by blast
  have "extractDetails E rs = meta_loop E (FIA meta @ []) (rsb, zero_rawDetails (sonyRawFile E 0))"
    using extractDetails_cases [OF assms(1) assms(2)] a by simp
  also have "\<dots> = meta_loop E [] (rsb, zero_rawDetails (sonyRawFile E 0))"
    by (rule meta_loop_other_tags [OF b])
  finally show "extractDetails E rs = Return (zero_rawDetails (sonyRawFile E 0)) None" by simp
next
  fix rw e assume r: "extractDetails E rs = Return rw e"
  let ?z = "zero_rawDetails (sonyRawFile E 0)"
  have z: "?z\<lparr>blackLevel := [0, 0, 0, 0], WhiteBalance := [0, 0, 0, 0]\<rparr> = ?z"
    by (simp add: zero_rawDetails_def)
  show "rw\<lparr>blackLevel := [0, 0, 0, 0], WhiteBalance := [0, 0, 0, 0]\<rparr> = ?z"
  proof (cases err)
    case None
    then have "meta_loop E (FIA meta) (rsb, ?z) = Return rw e"
      using extractDetails_cases [OF assms(1) assms(2)] r by simp
    then show ?thesis using meta_loop_sensor [OF assms(3)] z by fastforce
  next
    case (Some e')
    then have "rw = ?z"
      using extractDetails_cases [OF assms(1) assms(2)] r by simp
    then show ?thesis using z by simp
  qed
qed

text \<open>
  A file whose only tag is the image width outside any sub-tree, and a file whose private
  block sets the black levels: both return a nil error.
\<close>

theorem extractDetails_without_subIFD_witness:
  "extractDetails (table_env None (\<lambda>off. (ifd_of [(ImageWidth, 6000)], None)) (\<lambda>b. (ifd_of [], None)))
     FileReader = Return (zero_rawDetails 0) None \<and>
   extractDetails black_only_file FileReader =
     Return ((zero_rawDetails 0)\<lparr>blackLevel := [512, 512, 512, 512]\<rparr>) None"
proof -
  let ?E = "table_env None (\<lambda>off. (ifd_of [(ImageWidth, 6000)], None)) (\<lambda>b. (ifd_of [], None))"
  have h: "ParseHeader ?E FileReader = (FileReader, \<lparr>hdrOffset = 8\<rparr>, None)"
    by (simp add: table_env_def)
  have m: "ExtractMetaData ?E FileReader (uint (hdrOffset \<lparr>hdrOffset = 8\<rparr>)) 0 =
      (FileReader, ifd_of [(ImageWidth, 6000)], None)"
    by (simp add: table_env_def)
  have s: "\<forall>f\<in>set (FIA (ifd_of [(ImageWidth, 6000)])). Tag f \<noteq> SubIFDs"
    by (simp add: ifd_of_def)
  have d: "None = None \<and> (\<forall>f\<in>set (FIA (ifd_of [(ImageWidth, 6000)])). Tag f \<noteq> DNGPrivateData)"
    by (simp add: ifd_of_def)
  have "extractDetails ?E FileReader = Return (zero_rawDetails (sonyRawFile ?E 0)) None"
    using extractDetails_without_subIFD [OF h m s, THEN conjunct1] d by (rule mp)
  moreover have "sonyRawFile ?E 0 = 0"
    by (simp add: table_env_def)
  moreover have "extractDetails black_only_file FileReader =
      Return ((zero_rawDetails 0)\<lparr>blackLevel := [512, 512, 512, 512]\<rparr>) None"
    by (simp add: table_env_def ifd_of_def black_only_file_def extractDetails_def subIFD_part_def
        dng_part_def dng_loop_def sr2_tag_def deref_short_def copy_go_def zero_rawDetails_def)
  ultimately show ?thesis by simp
qed

subsection \<open>The repeat-pattern dimensions\<close>

lemma ucast_mult_down: "(ucast (a * b :: u32) :: u16) = ucast a * ucast b"
proof transfer
  fix a b :: int
  have "a mod 4294967296 mod 65536 = a mod 65536" "b mod 4294967296 mod 65536 = b mod 65536"
    by (simp_all add: mod_mod_cancel)
  then have "a mod 4294967296 * (b mod 4294967296) mod 65536 = a * b mod 65536"
    by (rule mod_mult_cong)
  then show "take_bit LENGTH(16) (take_bit LENGTH(32) (a * b)) =
       take_bit LENGTH(16) (take_bit LENGTH(32) a * take_bit LENGTH(32) b)"
    by (simp add: take_bit_eq_mod mod_mod_cancel)
qed

lemma ucast_ffff: "(ucast (0xffff :: u32) :: u16) = - 1"
  by simp

lemma dim_low: "(ucast (v * 0xffff :: u32) :: u16) = - ucast v"
  by (simp only: ucast_mult_down ucast_ffff) simp

lemma mult_ffff0000: "(v * 0xffff0000 :: u32) = push_bit 16 (v * 0xffff)"
  by (simp add: push_bit_eq_mult)

lemma ucast_drop_push_16: "(ucast (drop_bit 16 (push_bit 16 w :: u32)) :: u16) = ucast w"
  by (rule bit_word_eqI) (auto simp: bit_simps)

lemma dim_high: "(ucast (drop_bit 16 (v * 0xffff0000 :: u32)) :: u16) = - ucast v"
  by (simp only: mult_ffff0000 ucast_drop_push_16 dim_low)

text \<open>
  C6.  The claim: the 32-bit value of the repeat-pattern-dimensions tag is unpacked into its
  low 16 bits (first dimension) and its high 16 bits (second dimension).  The code
  multiplies by the masks where it should take the conjunction with them: both dimensions
  become the two's complement of the low 16 bits, and the high 16 bits are lost.
\<close>

theorem cfaPatternDim_multiplies_by_the_masks:
  "rawIFD_tag conv rawIFD i \<lparr>Tag = CFARepeatPatternDim, Offset = v\<rparr> rw =
     Some (rw\<lparr>cfaPatternDim := (cfaPatternDim rw)[0 := - ucast v, 1 := - ucast v]\<rparr>)"
  by (simp add: rawIFD_tag_def dim_low dim_high)

text \<open>The dimensions 2 and 2, packed as \<open>0x00020002\<close>, come out as 65534 and 65534.\<close>

theorem cfaPatternDim_multiplies_by_the_masks_witness:
  "extractDetails cfa_dim_file FileReader =
     Return ((zero_rawDetails 0)\<lparr>cfaPatternDim := [0xFFFE, 0xFFFE]\<rparr>) None"
  using cfaPatternDim_multiplies_by_the_masks
    [of "\<lambda>w. w" "ifd_of [(CFARepeatPatternDim, 0x00020002)]" 0 "0x00020002" "zero_rawDetails 0"]
  by (simp add: extractDetails_def cfa_dim_file_def table_env_def ifd_of_def subIFD_part_def
      dng_part_def zero_rawDetails_def)

subsection \<open>The error of the header parse\<close>

lemma subIFD_part_ParseHeader:
  "subIFD_part (E\<lparr>ParseHeader := p\<rparr>) fia st = subIFD_part E fia st"
  by (cases st) (simp add: subIFD_part_def)

lemma dng_part_ParseHeader:
  "dng_part (E\<lparr>ParseHeader := p\<rparr>) fia st = dng_part E fia st"
  by (cases st) (simp add: dng_part_def)

lemma meta_loop_ParseHeader:
  "meta_loop (E\<lparr>ParseHeader := p\<rparr>) fs st = meta_loop E fs st"
  by (induction fs arbitrary: st)
    (simp_all add: subIFD_part_ParseHeader dng_part_ParseHeader split: sum.splits)

text \<open>
  C9.  Whatever error \<open>ParseHeader\<close> reports, \<open>extractDetails\<close> ends as it does when
  \<open>ParseHeader\<close> reports none and leaves the same reader and header: the error is
  overwritten unread, and the tag list is read at the header's offset all the same, the
  outcome being that of the tag list.
\<close>

theorem extractDetails_discards_header_error:
  assumes "ParseHeader E rs = (rsa, h, herr)"
  shows "extractDetails E rs = extractDetails (E\<lparr>ParseHeader := \<lambda>r. (rsa, h, None)\<rparr>) rs \<and>
         extractDetails E rs =
           (case ExtractMetaData E rsa (uint (hdrOffset h)) 0 of
              (rsb, meta, Some e) \<Rightarrow> Return (zero_rawDetails (sonyRawFile E 0)) (Some e)
            | (rsb, meta, None) \<Rightarrow>
                meta_loop E (FIA meta) (rsb, zero_rawDetails (sonyRawFile E 0)))"
  using assms
  by (simp add: extractDetails_def meta_loop_ParseHeader Let_def split: prod.splits option.splits)

text \<open>A header that does not parse, before a tag list that does: a nil error is returned.\<close>

theorem extractDetails_discards_header_error_witness:
  "ParseHeader bad_header_file FileReader = (FileReader, \<lparr>hdrOffset = 8\<rparr>, Some ''bad header'') \<and>
   extractDetails bad_header_file FileReader = Return (zero_rawDetails 0) None"
  using extractDetails_discards_header_error
    [of bad_header_file FileReader FileReader "\<lparr>hdrOffset = 8\<rparr>" "Some ''bad header''"]
  by (simp add: extractDetails_def bad_header_file_def table_env_def ifd_of_def)

section \<open>Properties of the neighbour-fill pass\<close>

lemma nth_update_int:
  "0 \<le> a \<Longrightarrow> 0 \<le> j \<Longrightarrow> a < int (length xs) \<Longrightarrow>
     xs[nat a := v] ! nat j = (if j = a then v else xs ! nat j)"
  by (auto simp: nth_list_update)

lemma div_mod_row:
  "0 \<le> x \<Longrightarrow> x < W \<Longrightarrow> (y * W + x) div W = y \<and> (y * W + x) mod W = (x :: int)"
  by simp

lemma upper_step:
  assumes inv: "filled orig W a pix"
    and a: "a = y * W + x"
    and x: "0 \<le> x" "x + 1 < W" "even x"
    and y: "0 \<le> y" "even y"
    and len: "(y + 2) * W \<le> int (length orig)"
  shows "\<exists>p1 p2 p3 p4.
      copyG pix (y * W + x) (y * W + x + 1) = Some p1 \<and>
      copyB p1 (y * W + x) ((y + 1) * W + x + 1) = Some p2 \<and>
      copyR p2 (y * W + (x + 1)) (y * W + (x + 1) - 1) = Some p3 \<and>
      copyB p3 (y * W + (x + 1)) ((y + 1) * W + (x + 1)) = Some p4 \<and>
      filled orig W (a + 2) p4"
proof -
  have W: "0 < W" using x by linarith
  have yW: "0 \<le> y * W" using y W by simp
  have lp: "length pix = length orig" using inv by (simp add: filled_def)
  have b: "(y + 1) * W + x + 1 < int (length orig)"
  proof -
    have "(y + 1) * W + x + 1 < (y + 1) * W + W" using x by linarith
    also have "\<dots> = (y + 2) * W" by (simp add: algebra_simps)
    finally show ?thesis using len by linarith
  qed
  have c: "y * W \<le> (y + 1) * W" using W by (simp add: algebra_simps)
  have a0: "0 \<le> a" using a yW x by linarith
  have dm: "a div W = y" "a mod W = x" "(a + 1) div W = y" "(a + 1) mod W = x + 1"
    using div_mod_row [of x W y] div_mod_row [of "x + 1" W y] x a by (simp_all add: add.assoc)
  have cur: "\<And>i. 0 \<le> i \<Longrightarrow> i < int (length orig) \<Longrightarrow>
      pix ! nat i = (if i < a then fill_cell orig W i else orig ! nat i)"
    using inv by (simp add: filled_def)
  have e1: "(y + 1) * W + x + 1 = a + W + 1" "y * W + (x + 1) = a + 1"
    "(y + 1) * W + (x + 1) = a + 1 + W"
    using a by (simp_all add: algebra_simps)
  have rng: "a + 1 + W < int (length orig)" "0 < W" using b e1 W by linarith+
  define p1 where "p1 = pix[nat a := (pix ! nat a)\<lparr>G := G (pix ! nat (a + 1))\<rparr>]"
  define p2 where "p2 = p1[nat a := (p1 ! nat a)\<lparr>B := B (p1 ! nat (a + W + 1))\<rparr>]"
  define p3 where "p3 = p2[nat (a + 1) := (p2 ! nat (a + 1))\<lparr>R := R (p2 ! nat a)\<rparr>]"
  define p4 where "p4 = p3[nat (a + 1) := (p3 ! nat (a + 1))\<lparr>B := B (p3 ! nat (a + 1 + W))\<rparr>]"
  have l: "length p1 = length orig" "length p2 = length orig" "length p3 = length orig"
    "length p4 = length orig"
    by (simp_all add: p1_def p2_def p3_def p4_def lp)
  have s1: "copyG pix (y * W + x) (y * W + x + 1) = Some p1"
    using a0 rng lp by (simp add: copyG_def in_range_def p1_def a [symmetric])
  have s2: "copyB p1 (y * W + x) ((y + 1) * W + x + 1) = Some p2"
    using a0 rng l by (simp add: copyB_def in_range_def p2_def a [symmetric] e1)
  have s3: "copyR p2 (y * W + (x + 1)) (y * W + (x + 1) - 1) = Some p3"
    using a0 rng l by (simp add: copyR_def in_range_def p3_def e1)
  have s4: "copyB p3 (y * W + (x + 1)) ((y + 1) * W + (x + 1)) = Some p4"
    using a0 rng l by (simp add: copyB_def in_range_def p4_def e1)
  have v: "\<And>i. 0 \<le> i \<Longrightarrow> i < int (length orig) \<Longrightarrow>
      p4 ! nat i = (if i < a + 2 then fill_cell orig W i else orig ! nat i)"
  proof -
    fix i :: int assume i: "0 \<le> i" "i < int (length orig)"
    consider "i = a" | "i = a + 1" | "i < a" | "a + 2 \<le> i" by linarith
    then show "p4 ! nat i = (if i < a + 2 then fill_cell orig W i else orig ! nat i)"
    proof cases
      case 1
      then show ?thesis
        using a0 rng lp l cur [of a] cur [of "a + 1"] cur [of "a + W + 1"] x y
        by (simp add: p4_def p3_def p2_def p1_def nth_update_int fill_cell_def dm)
    next
      case 2
      then show ?thesis
        using a0 rng lp l cur [of a] cur [of "a + 1"] cur [of "a + 1 + W"] x y
        by (simp add: p4_def p3_def p2_def p1_def nth_update_int fill_cell_def dm)
    next
      case 3
      then show ?thesis
        using a0 rng lp l cur [of i] i
        by (simp add: p4_def p3_def p2_def p1_def nth_update_int)
    next
      case 4
      then show ?thesis
        using a0 rng lp l cur [of i] i
        by (simp add: p4_def p3_def p2_def p1_def nth_update_int)
    qed
  qed
  have "filled orig W (a + 2) p4"
    unfolding filled_def using l v by blast
  with s1 s2 s3 s4 show ?thesis by blast
qed


lemma lower_step:
  assumes inv: "filled orig W a pix"
    and a: "a = y * W + x"
    and x: "0 \<le> x" "x + 1 < W" "even x"
    and y: "1 \<le> y" "odd y"
    and len: "(y + 1) * W \<le> int (length orig)"
  shows "\<exists>p1 p2 p3 p4.
      copyR pix (y * W + x) ((y - 1) * W + x) = Some p1 \<and>
      copyB p1 (y * W + x) (y * W + x + 1) = Some p2 \<and>
      copyR p2 (y * W + (x + 1)) ((y - 1) * W + (x + 1) - 1) = Some p3 \<and>
      copyG p3 (y * W + (x + 1)) (y * W + (x + 1) - 1) = Some p4 \<and>
      filled orig W (a + 2) p4"
proof -
  have W: "0 < W" using x by linarith
  have yW: "0 \<le> (y - 1) * W" using y W by simp
  have lp: "length pix = length orig" using inv by (simp add: filled_def)
  have e1: "(y - 1) * W + x = a - W" "y * W + (x + 1) = a + 1"
    "(y - 1) * W + (x + 1) - 1 = a - W"
    using a by (simp_all add: algebra_simps)
  have b: "a + 1 < int (length orig)"
  proof -
    have "a + 1 < y * W + W" using x a by linarith
    also have "\<dots> = (y + 1) * W" by (simp add: algebra_simps)
    finally show ?thesis using len by linarith
  qed
  have a0: "0 \<le> a - W" using e1(1) yW x by linarith
  have dm: "a div W = y" "a mod W = x" "(a + 1) div W = y" "(a + 1) mod W = x + 1"
    using div_mod_row [of x W y] div_mod_row [of "x + 1" W y] x a by (simp_all add: add.assoc)
  have dm': "(a - W) div W = y - 1" "(a - W) mod W = x"
    using div_mod_row [of x W "y - 1"] x e1(1) by simp_all
  have cur: "\<And>i. 0 \<le> i \<Longrightarrow> i < int (length orig) \<Longrightarrow>
      pix ! nat i = (if i < a then fill_cell orig W i else orig ! nat i)"
    using inv by (simp add: filled_def)
  define p1 where "p1 = pix[nat a := (pix ! nat a)\<lparr>R := R (pix ! nat (a - W))\<rparr>]"
  define p2 where "p2 = p1[nat a := (p1 ! nat a)\<lparr>B := B (p1 ! nat (a + 1))\<rparr>]"
  define p3 where "p3 = p2[nat (a + 1) := (p2 ! nat (a + 1))\<lparr>R := R (p2 ! nat (a - W))\<rparr>]"
  define p4 where "p4 = p3[nat (a + 1) := (p3 ! nat (a + 1))\<lparr>G := G (p3 ! nat a)\<rparr>]"
  have l: "length p1 = length orig" "length p2 = length orig" "length p3 = length orig"
    "length p4 = length orig"
    by (simp_all add: p1_def p2_def p3_def p4_def lp)
  have s1: "copyR pix (y * W + x) ((y - 1) * W + x) = Some p1"
    using a0 b W lp by (simp add: copyR_def in_range_def p1_def a [symmetric] e1)
  have s2: "copyB p1 (y * W + x) (y * W + x + 1) = Some p2"
    using a0 b W l by (simp add: copyB_def in_range_def p2_def a [symmetric])
  have s3: "copyR p2 (y * W + (x + 1)) ((y - 1) * W + (x + 1) - 1) = Some p3"
    using a0 b W l by (simp add: copyR_def in_range_def p3_def e1)
  have s4: "copyG p3 (y * W + (x + 1)) (y * W + (x + 1) - 1) = Some p4"
    using a0 b W l by (simp add: copyG_def in_range_def p4_def e1)
  have v: "\<And>i. 0 \<le> i \<Longrightarrow> i < int (length orig) \<Longrightarrow>
      p4 ! nat i = (if i < a + 2 then fill_cell orig W i else orig ! nat i)"
  proof -
    fix i :: int assume i: "0 \<le> i" "i < int (length orig)"
    consider "i = a" | "i = a + 1" | "i < a" | "a + 2 \<le> i" by linarith
    then show "p4 ! nat i = (if i < a + 2 then fill_cell orig W i else orig ! nat i)"
    proof cases
      case 1
      then show ?thesis
        using a0 b W lp l cur [of a] cur [of "a + 1"] cur [of "a - W"] x y
        by (simp add: p4_def p3_def p2_def p1_def nth_update_int fill_cell_def dm dm')
    next
      case 2
      then show ?thesis
        using a0 b W lp l cur [of a] cur [of "a + 1"] cur [of "a - W"] x y
        by (simp add: p4_def p3_def p2_def p1_def nth_update_int fill_cell_def dm dm')
    next
      case 3
      then show ?thesis
        using a0 b W lp l cur [of i] i
        by (simp add: p4_def p3_def p2_def p1_def nth_update_int)
    next
      case 4
      then show ?thesis
        using a0 b W lp l cur [of i] i
        by (simp add: p4_def p3_def p2_def p1_def nth_update_int)
    qed
  qed
  have "filled orig W (a + 2) p4"
    unfolding filled_def using l v by blast
  with s1 s2 s3 s4 show ?thesis by blast
qed


lemma upper_done: "\<not> x < W \<Longrightarrow> craw_fill_upper S W y x pix = Some pix"
  by (simp add: craw_fill_upper.simps)

lemma lower_done: "\<not> x < W \<Longrightarrow> craw_fill_lower S W y x pix = Some pix"
  by (simp add: craw_fill_lower.simps)

lemma rows_done: "\<not> y < H \<Longrightarrow> craw_fill_rows S W H y pix = Some pix"
  by (simp add: craw_fill_rows.simps)

lemma upper_loop:
  assumes "filled orig W (y * W + x) pix" "0 \<le> x" "even x" "x \<le> W" "even W"
    and "0 \<le> y" "even y" "(y + 2) * W \<le> int (length orig)"
  shows "\<exists>pix'. craw_fill_upper W W y x pix = Some pix' \<and> filled orig W ((y + 1) * W) pix'"
  using assms
proof (induction "nat (W - x)" arbitrary: x pix rule: less_induct)
  case less
  show ?case
  proof (cases "x < W")
    case False
    then have "x = W" using less.prems by linarith
    then show ?thesis
      using less.prems(1) by (simp add: upper_done algebra_simps)
  next
    case True
    then have x1: "x + 1 < W" using less.prems by presburger
    obtain p1 p2 p3 p4 where s:
      "copyG pix (y * W + x) (y * W + x + 1) = Some p1"
      "copyB p1 (y * W + x) ((y + 1) * W + x + 1) = Some p2"
      "copyR p2 (y * W + (x + 1)) (y * W + (x + 1) - 1) = Some p3"
      "copyB p3 (y * W + (x + 1)) ((y + 1) * W + (x + 1)) = Some p4"
      "filled orig W (y * W + x + 2) p4"
      using upper_step [OF less.prems(1) refl less.prems(2) x1 less.prems(3) less.prems(6,7,8)]
      by blast
    have "\<exists>pix'. craw_fill_upper W W y (x + 1 + 1) p4 = Some pix' \<and> filled orig W ((y + 1) * W) pix'"
    proof (rule less.hyps)
      show "nat (W - (x + 1 + 1)) < nat (W - x)" using True by linarith
      show "filled orig W (y * W + (x + 1 + 1)) p4" using s(5) by (simp add: add.assoc)
      show "0 \<le> x + 1 + 1" using less.prems by linarith
      show "even (x + 1 + 1)" using less.prems by simp
      show "x + 1 + 1 \<le> W" using x1 by linarith
    qed (use less.prems in simp_all)
    then show ?thesis
      using True s by (simp add: craw_fill_upper.simps [of W W y x])
  qed
qed

lemma lower_loop:
  assumes "filled orig W (y * W + x) pix" "0 \<le> x" "even x" "x \<le> W" "even W"
    and "1 \<le> y" "odd y" "(y + 1) * W \<le> int (length orig)"
  shows "\<exists>pix'. craw_fill_lower W W y x pix = Some pix' \<and> filled orig W ((y + 1) * W) pix'"
  using assms
proof (induction "nat (W - x)" arbitrary: x pix rule: less_induct)
  case less
  show ?case
  proof (cases "x < W")
    case False
    then have "x = W" using less.prems by linarith
    then show ?thesis
      using less.prems(1) by (simp add: lower_done algebra_simps)
  next
    case True
    then have x1: "x + 1 < W" using less.prems by presburger
    obtain p1 p2 p3 p4 where s:
      "copyR pix (y * W + x) ((y - 1) * W + x) = Some p1"
      "copyB p1 (y * W + x) (y * W + x + 1) = Some p2"
      "copyR p2 (y * W + (x + 1)) ((y - 1) * W + (x + 1) - 1) = Some p3"
      "copyG p3 (y * W + (x + 1)) (y * W + (x + 1) - 1) = Some p4"
      "filled orig W (y * W + x + 2) p4"
      using lower_step [OF less.prems(1) refl less.prems(2) x1 less.prems(3) less.prems(6,7,8)]
      by blast
    have "\<exists>pix'. craw_fill_lower W W y (x + 1 + 1) p4 = Some pix' \<and> filled orig W ((y + 1) * W) pix'"
    proof (rule less.hyps)
      show "nat (W - (x + 1 + 1)) < nat (W - x)" using True by linarith
      show "filled orig W (y * W + (x + 1 + 1)) p4" using s(5) by (simp add: add.assoc)
      show "0 \<le> x + 1 + 1" using less.prems by linarith
      show "even (x + 1 + 1)" using less.prems by simp
      show "x + 1 + 1 \<le> W" using x1 by linarith
    qed (use less.prems in simp_all)
    then show ?thesis
      using True s by (simp add: craw_fill_lower.simps [of W W y x])
  qed
qed

lemma rows_loop:
  assumes "filled orig W (y * W) pix" "0 \<le> y" "even y" "y \<le> H" "even H" "even W" "0 \<le> W"
    and "int (length orig) = W * H"
  shows "\<exists>pix'. craw_fill_rows W W H y pix = Some pix' \<and> filled orig W (H * W) pix'"
  using assms
proof (induction "nat (H - y)" arbitrary: y pix rule: less_induct)
  case less
  show ?case
  proof (cases "y < H")
    case False
    then have "y = H" using less.prems by linarith
    then show ?thesis
      using less.prems(1) by (simp add: rows_done)
  next
    case True
    then have y1: "y + 2 \<le> H" using less.prems by presburger
    then have "(y + 2) * W \<le> H * W"
      using less.prems(7) by (rule mult_right_mono)
    then have le: "(y + 2) * W \<le> int (length orig)"
      using less.prems(8) by (simp add: mult.commute)
    obtain p1 where p1: "craw_fill_upper W W y 0 pix = Some p1" "filled orig W ((y + 1) * W) p1"
      using upper_loop [of orig W y 0 pix] less.prems le by auto
    obtain p2 where p2: "craw_fill_lower W W (y + 1) 0 p1 = Some p2"
      "filled orig W ((y + 1 + 1) * W) p2"
      using lower_loop [of orig W "y + 1" 0 p1] p1(2) less.prems le by (auto simp: add.assoc)
    have "\<exists>pix'. craw_fill_rows W W H (y + 1 + 1) p2 = Some pix' \<and> filled orig W (H * W) pix'"
    proof (rule less.hyps)
      show "nat (H - (y + 1 + 1)) < nat (H - y)" using True by linarith
      show "filled orig W ((y + 1 + 1) * W) p2" by (rule p2(2))
      show "y + 1 + 1 \<le> H" using y1 by linarith
    qed (use less.prems in simp_all)
    then show ?thesis
      using True p1 p2 by (simp add: craw_fill_rows.simps [of W W H y])
  qed
qed


lemma rows_empty: "W \<le> 0 \<Longrightarrow> craw_fill_rows S W H y pix = Some pix"
proof (induction S W H y pix rule: craw_fill_rows.induct)
  case (1 S W H y pix)
  then show ?case
    by (subst craw_fill_rows.simps) (simp add: upper_done lower_done)
qed

subsection \<open>Out of range\<close>

lemma upper_unfold:
  "craw_fill_upper S W y x pix =
     (if x < W then upper_body S y x pix \<bind> craw_fill_upper S W y (x + 1 + 1) else Some pix)"
  by (subst craw_fill_upper.simps) (simp add: upper_body_def)

lemma lower_unfold:
  "craw_fill_lower S W y x pix =
     (if x < W then lower_body S y x pix \<bind> craw_fill_lower S W y (x + 1 + 1) else Some pix)"
  by (subst craw_fill_lower.simps) (simp add: lower_body_def)

lemma in_range_update [simp]: "in_range (xs[i := v]) j = in_range xs j"
  by (simp add: in_range_def)

lemma copy_length:
  "copyR pix a b = Some p \<Longrightarrow> length p = length pix"
  "copyG pix a b = Some p \<Longrightarrow> length p = length pix"
  "copyB pix a b = Some p \<Longrightarrow> length p = length pix"
  by (auto simp: copyR_def copyG_def copyB_def split: if_splits)

lemma in_range_length: "length p = length q \<Longrightarrow> in_range p i = in_range q i"
  by (simp add: in_range_def)

lemma upper_body_length: "upper_body S y x pix = Some p \<Longrightarrow> length p = length pix"
  by (auto simp: upper_body_def bind_eq_Some_conv dest!: copy_length)

lemma lower_body_length: "lower_body S y x pix = Some p \<Longrightarrow> length p = length pix"
  by (auto simp: lower_body_def bind_eq_Some_conv dest!: copy_length)

lemma upper_body_None:
  "\<not> in_range pix ((y + 1) * S + x + 1) \<Longrightarrow> upper_body S y x pix = None"
  by (simp add: upper_body_def copyG_def copyB_def)

lemma upper_length: "craw_fill_upper S W y x pix = Some p \<Longrightarrow> length p = length pix"
proof (induction S W y x pix arbitrary: p rule: craw_fill_upper.induct)
  case (1 S W y x pix)
  show ?case
  proof (cases "x < W")
    case False
    then show ?thesis using "1.prems" by (simp add: upper_done)
  next
    case True
    with "1.prems" obtain q where q: "upper_body S y x pix = Some q"
      "craw_fill_upper S W y (x + 1 + 1) q = Some p"
      by (subst (asm) upper_unfold) (auto simp: bind_eq_Some_conv)
    from q(1) obtain p1 p2 p3 where c:
      "copyG pix (y * S + x) (y * S + x + 1) = Some p1"
      "copyB p1 (y * S + x) ((y + 1) * S + x + 1) = Some p2"
      "copyR p2 (y * S + (x + 1)) (y * S + (x + 1) - 1) = Some p3"
      "copyB p3 (y * S + (x + 1)) ((y + 1) * S + (x + 1)) = Some q"
      by (auto simp: upper_body_def bind_eq_Some_conv)
    have "length p = length q"
      using "1.IH" [OF True c q(2)] .
    then show ?thesis using upper_body_length [OF q(1)] by simp
  qed
qed

lemma lower_length: "craw_fill_lower S W y x pix = Some p \<Longrightarrow> length p = length pix"
proof (induction S W y x pix arbitrary: p rule: craw_fill_lower.induct)
  case (1 S W y x pix)
  show ?case
  proof (cases "x < W")
    case False
    then show ?thesis using "1.prems" by (simp add: lower_done)
  next
    case True
    with "1.prems" obtain q where q: "lower_body S y x pix = Some q"
      "craw_fill_lower S W y (x + 1 + 1) q = Some p"
      by (subst (asm) lower_unfold) (auto simp: bind_eq_Some_conv)
    from q(1) obtain p1 p2 p3 where c:
      "copyR pix (y * S + x) ((y - 1) * S + x) = Some p1"
      "copyB p1 (y * S + x) (y * S + x + 1) = Some p2"
      "copyR p2 (y * S + (x + 1)) ((y - 1) * S + (x + 1) - 1) = Some p3"
      "copyG p3 (y * S + (x + 1)) (y * S + (x + 1) - 1) = Some q"
      by (auto simp: lower_body_def bind_eq_Some_conv)
    have "length p = length q"
      using "1.IH" [OF True c q(2)] .
    then show ?thesis using lower_body_length [OF q(1)] by simp
  qed
qed

text \<open>
  A turn of the upper loop at the column \<open>xa\<close> reads the cell \<open>(y + 1) * S + xa + 1\<close>; when
  that index is outside the array the loop panics, at that turn or before.
\<close>

lemma upper_fail:
  "x \<le> xa \<Longrightarrow> even (xa - x) \<Longrightarrow> xa < W \<Longrightarrow> \<not> in_range pix ((y + 1) * S + xa + 1) \<Longrightarrow>
     craw_fill_upper S W y x pix = None"
proof (induction S W y x pix rule: craw_fill_upper.induct)
  case (1 S W y x pix)
  have xW: "x < W" using "1.prems" by linarith
  show ?case
  proof (cases "upper_body S y x pix")
    case None
    then show ?thesis using xW by (subst upper_unfold) simp
  next
    case (Some q)
    then have neq: "x \<noteq> xa" using upper_body_None "1.prems"(4) by fastforce
    then have le: "x + 1 + 1 \<le> xa" using "1.prems"(1,2) by presburger
    from Some obtain p1 p2 p3 where c:
      "copyG pix (y * S + x) (y * S + x + 1) = Some p1"
      "copyB p1 (y * S + x) ((y + 1) * S + x + 1) = Some p2"
      "copyR p2 (y * S + (x + 1)) (y * S + (x + 1) - 1) = Some p3"
      "copyB p3 (y * S + (x + 1)) ((y + 1) * S + (x + 1)) = Some q"
      by (auto simp: upper_body_def bind_eq_Some_conv)
    have "\<not> in_range q ((y + 1) * S + xa + 1)"
      using "1.prems"(4) in_range_length [OF upper_body_length [OF Some]] by simp
    then have "craw_fill_upper S W y (x + 1 + 1) q = None"
      using "1.IH" [OF xW c le] "1.prems"(2,3) by simp
    then show ?thesis using xW Some by (subst upper_unfold) simp
  qed
qed

lemma rows_fail:
  "y \<le> ya \<Longrightarrow> even (ya - y) \<Longrightarrow> ya < H \<Longrightarrow>
   (\<forall>p. length p = length pix \<longrightarrow> craw_fill_upper S W ya 0 p = None) \<Longrightarrow>
     craw_fill_rows S W H y pix = None"
proof (induction S W H y pix rule: craw_fill_rows.induct)
  case (1 S W H y pix)
  have yH: "y < H" using "1.prems" by linarith
  show ?case
  proof (cases "craw_fill_upper S W y 0 pix")
    case None
    then show ?thesis using yH by (subst craw_fill_rows.simps) simp
  next
    case (Some p1)
    then have neq: "y \<noteq> ya" using "1.prems"(4) by auto
    then have le: "y + 1 + 1 \<le> ya" using "1.prems"(1,2) by presburger
    show ?thesis
    proof (cases "craw_fill_lower S W (y + 1) 0 p1")
      case None
      then show ?thesis using yH Some by (subst craw_fill_rows.simps) simp
    next
      case p2: (Some p2)
      have "length p2 = length pix"
        using upper_length [OF Some] lower_length [OF p2] by simp
      then have "craw_fill_rows S W H (y + 1 + 1) p2 = None"
        using "1.IH" [OF yH Some p2 le] "1.prems"(2,3,4) by simp
      then show ?thesis using yH Some p2 by (subst craw_fill_rows.simps) simp
    qed
  qed
qed


lemma rows_odd_width:
  assumes "odd W" "0 < W" "0 < H" "int (length pix) = W * H"
  shows "craw_fill_rows W W H 0 pix = None"
proof -
  define ya where "ya = (if even H then H - 2 else H - 1)"
  have ya: "0 \<le> ya" "even (ya - 0)" "ya < H" "H \<le> ya + 2"
    using assms(3) by (auto simp: ya_def elim: evenE)
  have "craw_fill_upper W W ya 0 p = None" if "length p = length pix" for p
  proof (rule upper_fail [of 0 "W - 1"])
    have "H * W \<le> (ya + 2) * W" using ya(4) assms(2) by (simp add: mult_right_mono)
    then show "\<not> in_range p ((ya + 1) * W + (W - 1) + 1)"
      using that assms(4) by (simp add: in_range_def algebra_simps)
  qed (use assms in simp_all)
  then show ?thesis
    using rows_fail [of 0 ya H pix W W] ya by simp
qed

lemma rows_odd_height:
  assumes "even W" "0 < W" "odd H" "0 < H" "int (length pix) = W * H"
  shows "craw_fill_rows W W H 0 pix = None"
proof -
  have ya: "0 \<le> H - 1" "even (H - 1 - 0)" "H - 1 < H"
    using assms by simp_all
  have "craw_fill_upper W W (H - 1) 0 p = None" if "length p = length pix" for p
  proof (rule upper_fail [of 0 0])
    show "\<not> in_range p ((H - 1 + 1) * W + 0 + 1)"
      using that assms(5) by (simp add: in_range_def algebra_simps)
  qed (use assms in simp_all)
  then show ?thesis
    using rows_fail [of 0 "H - 1" H pix W W] ya by simp
qed

lemma rows_even:
  assumes "even W" "even H" "0 \<le> W" "0 \<le> H" "int (length pix) = W * H"
  shows "\<exists>p. craw_fill_rows W W H 0 pix = Some p \<and> filled pix W (H * W) p"
proof -
  have "filled pix W (0 * W) pix" by (simp add: filled_def)
  then show ?thesis
    using rows_loop [of pix W 0 pix H] assms by simp
qed

lemma rows_Some_iff:
  assumes "0 \<le> W" "0 \<le> H" "int (length pix) = W * H"
  shows "craw_fill_rows W W H 0 pix \<noteq> None \<longleftrightarrow> W = 0 \<or> H = 0 \<or> even W \<and> even H"
proof (cases "W = 0 \<or> H = 0")
  case True
  then show ?thesis
    using rows_empty [of W W H 0 pix] rows_done [of 0 H W W pix] by auto
next
  case False
  then have pos: "0 < W" "0 < H" using assms by linarith+
  show ?thesis
  proof (cases "even W \<and> even H")
    case True
    then show ?thesis using rows_even [of W H pix] assms by auto
  next
    case False
    then have "craw_fill_rows W W H 0 pix = None"
      using rows_odd_width [of W H pix] rows_odd_height [of W H pix] pos assms(3) by blast
    then show ?thesis using False pos by simp
  qed
qed

subsection \<open>The two copies of the loops\<close>

lemma raw14_upper_unfold:
  "raw14_fill_upper S W y x pix =
     (if x < W then upper_body S y x pix \<bind> raw14_fill_upper S W y (x + 1 + 1) else Some pix)"
  by (subst raw14_fill_upper.simps) (simp add: upper_body_def)

lemma raw14_lower_unfold:
  "raw14_fill_lower S W y x pix =
     (if x < W then lower_body S y x pix \<bind> raw14_fill_lower S W y (x + 1 + 1) else Some pix)"
  by (subst raw14_fill_lower.simps) (simp add: lower_body_def)

lemma raw14_upper_eq: "raw14_fill_upper S W y x pix = craw_fill_upper S W y x pix"
proof (induction "nat (W - x)" arbitrary: x pix rule: less_induct)
  case less
  show ?case
  proof (cases "x < W")
    case True
    have "raw14_fill_upper S W y (x + 1 + 1) = craw_fill_upper S W y (x + 1 + 1)"
      by (rule ext, rule less.hyps) (use True in linarith)
    then show ?thesis
      by (simp only: raw14_upper_unfold [of S W y x pix] upper_unfold [of S W y x pix])
  next
    case False
    then show ?thesis
      by (simp add: raw14_upper_unfold [of S W y x pix] upper_unfold [of S W y x pix])
  qed
qed

lemma raw14_lower_eq: "raw14_fill_lower S W y x pix = craw_fill_lower S W y x pix"
proof (induction "nat (W - x)" arbitrary: x pix rule: less_induct)
  case less
  show ?case
  proof (cases "x < W")
    case True
    have "raw14_fill_lower S W y (x + 1 + 1) = craw_fill_lower S W y (x + 1 + 1)"
      by (rule ext, rule less.hyps) (use True in linarith)
    then show ?thesis
      by (simp only: raw14_lower_unfold [of S W y x pix] lower_unfold [of S W y x pix])
  next
    case False
    then show ?thesis
      by (simp add: raw14_lower_unfold [of S W y x pix] lower_unfold [of S W y x pix])
  qed
qed

lemma raw14_rows_eq: "raw14_fill_rows S W H y pix = craw_fill_rows S W H y pix"
proof (induction "nat (H - y)" arbitrary: y pix rule: less_induct)
  case less
  show ?case
  proof (cases "y < H")
    case True
    have "raw14_fill_rows S W H (y + 1 + 1) = craw_fill_rows S W H (y + 1 + 1)"
      by (rule ext, rule less.hyps) (use True in linarith)
    then show ?thesis
      by (simp only: raw14_fill_rows.simps [of S W H y pix] craw_fill_rows.simps [of S W H y pix]
          raw14_upper_eq raw14_lower_eq)
  next
    case False
    then show ?thesis
      by (simp add: raw14_fill_rows.simps [of S W H y pix] craw_fill_rows.simps [of S W H y pix])
  qed
qed

lemma raw14_fill_eq: "raw14_fill img = craw_fill img"
  by (simp add: raw14_fill_def craw_fill_def raw14_rows_eq)

subsection \<open>The tiles\<close>

lemma image_Rect_Max:
  "0 \<le> a \<Longrightarrow> 0 \<le> b \<Longrightarrow> X (Max' (image_Rect 0 0 a b)) = a \<and> Y (Max' (image_Rect 0 0 a b)) = b"
  by (simp add: image_Rect_def)

lemma craw_fill_rows_of:
  "raster_of w h img \<Longrightarrow>
     craw_fill img =
       map_option (\<lambda>pix. img\<lparr>Pix := pix\<rparr>) (craw_fill_rows (uint w) (uint w) (uint h) 0 (Pix img))"
  by (simp add: craw_fill_def raster_of_def image_Rect_Max)

lemma filled_tile:
  assumes f: "filled orig W (H * W) p"
    and len: "int (length orig) = W * H"
    and x: "0 \<le> x" "even x" "x < W" and y: "0 \<le> y" "even y" "y < H"
    and ev: "even W" "even H"
  shows "p ! nat (y * W + x) =
           (orig ! nat (y * W + x))\<lparr>G := G (orig ! nat (y * W + (x + 1))),
              B := B (orig ! nat ((y + 1) * W + (x + 1)))\<rparr>"
    and "p ! nat (y * W + (x + 1)) =
           (orig ! nat (y * W + (x + 1)))\<lparr>R := R (orig ! nat (y * W + x)),
              B := B (orig ! nat ((y + 1) * W + (x + 1)))\<rparr>"
    and "p ! nat ((y + 1) * W + x) =
           (orig ! nat ((y + 1) * W + x))\<lparr>R := R (orig ! nat (y * W + x)),
              B := B (orig ! nat ((y + 1) * W + (x + 1)))\<rparr>"
    and "p ! nat ((y + 1) * W + (x + 1)) =
           (orig ! nat ((y + 1) * W + (x + 1)))\<lparr>R := R (orig ! nat (y * W + x)),
              G := G (orig ! nat ((y + 1) * W + x))\<rparr>"
proof -
  have x1: "x + 1 < W" using x ev by presburger
  have y1: "y + 2 \<le> H" using y ev by presburger
  have W: "0 < W" using x by linarith
  have yw: "(y + 1) * W = y * W + W" by (simp add: algebra_simps)
  have "(y + 2) * W \<le> H * W" using y1 W by (simp add: mult_right_mono)
  then have top: "y * W + W + W \<le> H * W" by (simp add: algebra_simps)
  have yW: "0 \<le> y * W" using y W by simp
  have v: "p ! nat i = fill_cell orig W i" if "0 \<le> i" "i < H * W" for i
    using f that len by (simp add: filled_def mult.commute)
  have in1: "0 \<le> y * W + x" "y * W + x < H * W"
    "0 \<le> y * W + (x + 1)" "y * W + (x + 1) < H * W"
    "0 \<le> (y + 1) * W + x" "(y + 1) * W + x < H * W"
    "0 \<le> (y + 1) * W + (x + 1)" "(y + 1) * W + (x + 1) < H * W"
    using x x1 yW top unfolding yw by linarith+
  have dm: "(y * W + x) div W = y" "(y * W + x) mod W = x"
    "(y * W + (x + 1)) div W = y" "(y * W + (x + 1)) mod W = x + 1"
    "((y + 1) * W + x) div W = y + 1" "((y + 1) * W + x) mod W = x"
    "((y + 1) * W + (x + 1)) div W = y + 1" "((y + 1) * W + (x + 1)) mod W = x + 1"
    using div_mod_row [of x W y] div_mod_row [of "x + 1" W y]
      div_mod_row [of x W "y + 1"] div_mod_row [of "x + 1" W "y + 1"] x x1 by simp_all
  have e: "y * W + x + 1 = y * W + (x + 1)" "y * W + x + W + 1 = (y + 1) * W + (x + 1)"
    "y * W + (x + 1) - 1 = y * W + x" "y * W + (x + 1) + W = (y + 1) * W + (x + 1)"
    "(y + 1) * W + x - W = y * W + x" "(y + 1) * W + x + 1 = (y + 1) * W + (x + 1)"
    "(y + 1) * W + (x + 1) - W - 1 = y * W + x" "(y + 1) * W + (x + 1) - 1 = (y + 1) * W + x"
    by (simp_all add: algebra_simps)
  show "p ! nat (y * W + x) =
           (orig ! nat (y * W + x))\<lparr>G := G (orig ! nat (y * W + (x + 1))),
              B := B (orig ! nat ((y + 1) * W + (x + 1)))\<rparr>"
    using x y by (simp only: v [OF in1(1,2)] fill_cell_def dm e Let_def) simp
  show "p ! nat (y * W + (x + 1)) =
           (orig ! nat (y * W + (x + 1)))\<lparr>R := R (orig ! nat (y * W + x)),
              B := B (orig ! nat ((y + 1) * W + (x + 1)))\<rparr>"
    using x y by (simp only: v [OF in1(3,4)] fill_cell_def dm e Let_def) simp
  show "p ! nat ((y + 1) * W + x) =
           (orig ! nat ((y + 1) * W + x))\<lparr>R := R (orig ! nat (y * W + x)),
              B := B (orig ! nat ((y + 1) * W + (x + 1)))\<rparr>"
    using x y by (simp only: v [OF in1(5,6)] fill_cell_def dm e Let_def) simp
  show "p ! nat ((y + 1) * W + (x + 1)) =
           (orig ! nat ((y + 1) * W + (x + 1)))\<lparr>R := R (orig ! nat (y * W + x)),
              G := G (orig ! nat ((y + 1) * W + x))\<rparr>"
    using x y by (simp only: v [OF in1(7,8)] fill_cell_def dm e Let_def) simp
qed

lemma rows_length: "craw_fill_rows S W H y pix = Some p \<Longrightarrow> length p = length pix"
proof (induction S W H y pix arbitrary: p rule: craw_fill_rows.induct)
  case (1 S W H y pix)
  show ?case
  proof (cases "y < H")
    case False
    then show ?thesis using "1.prems" by (simp add: rows_done)
  next
    case True
    with "1.prems" obtain p1 p2 where q: "craw_fill_upper S W y 0 pix = Some p1"
      "craw_fill_lower S W (y + 1) 0 p1 = Some p2"
      "craw_fill_rows S W H (y + 1 + 1) p2 = Some p"
      by (subst (asm) craw_fill_rows.simps) (auto simp: bind_eq_Some_conv)
    have "length p = length p2"
      using "1.IH" [OF True q] .
    then show ?thesis using upper_length [OF q(1)] lower_length [OF q(2)] by simp
  qed
qed

lemma raster_length:
  "raster_of w h img \<Longrightarrow> int (length (Pix img)) = uint w * uint h"
  by (simp add: raster_of_def)

lemma fill_completes_iff:
  assumes "raster_of w h img"
  shows "craw_fill img \<noteq> None \<longleftrightarrow> uint w = 0 \<or> uint h = 0 \<or> even (uint w) \<and> even (uint h)"
  using rows_Some_iff [of "uint w" "uint h" "Pix img"] raster_length [OF assms]
  by (simp add: craw_fill_rows_of [OF assms])

lemma fill_tiles:
  assumes r: "raster_of w h img" and c: "craw_fill img = Some img'"
    and x: "0 \<le> x" "even x" "x < uint w" and y: "0 \<le> y" "even y" "y < uint h"
  shows "tile_filled img img' x y"
proof -
  let ?W = "uint w" and ?H = "uint h"
  have len: "int (length (Pix img)) = ?W * ?H" by (rule raster_length [OF r])
  from c obtain p where p: "craw_fill_rows ?W ?W ?H 0 (Pix img) = Some p" "img' = img\<lparr>Pix := p\<rparr>"
    by (auto simp: craw_fill_rows_of [OF r])
  have "craw_fill img \<noteq> None" using c by simp
  then have ev: "even ?W" "even ?H"
    using fill_completes_iff [OF r] x y by auto
  obtain q where q: "craw_fill_rows ?W ?W ?H 0 (Pix img) = Some q" "filled (Pix img) ?W (?H * ?W) q"
    using rows_even [of ?W ?H "Pix img"] ev len by auto
  have f: "filled (Pix img) ?W (?H * ?W) p" using p q by simp
  have S: "Stride img = ?W" "Stride img' = ?W" "Pix img' = p"
    using r p by (simp_all add: raster_of_def)
  show ?thesis
    unfolding tile_filled_def cell_def S
    using filled_tile [OF f len x y ev] by simp
qed

text \<open>
  C4.  For every raster \<open>readCRAW\<close> and \<open>readraw14\<close> can build (\<open>raster_of\<close>), whatever its
  cells hold after the channel-write pass: the two copies of the fill pass are the same
  function; the pass runs to its end when width and height are even; and whenever it runs
  to its end, every 2 by 2 tile at an even column and an even row is filled by the copy rule
  of section 4.4, from the cells as they were before the pass (\<open>tile_filled\<close>), the raster
  keeping its shape.
\<close>

theorem neighbour_fill_copy_rule:
  assumes "raster_of w h img"
  shows "raw14_fill img = craw_fill img \<and>
         (even (uint w) \<and> even (uint h) \<longrightarrow> craw_fill img \<noteq> None) \<and>
         (\<forall>img'. craw_fill img = Some img' \<longrightarrow>
            raster_of w h img' \<and>
            (\<forall>x y. 0 \<le> x \<and> even x \<and> x < uint w \<and> 0 \<le> y \<and> even y \<and> y < uint h \<longrightarrow>
               tile_filled img img' x y))"
proof (intro conjI allI impI)
  show "raw14_fill img = craw_fill img" by (rule raw14_fill_eq)
next
  assume "even (uint w) \<and> even (uint h)"
  then show "craw_fill img \<noteq> None" using fill_completes_iff [OF assms] by simp
next
  fix img' assume c: "craw_fill img = Some img'"
  then obtain p where p: "craw_fill_rows (uint w) (uint w) (uint h) 0 (Pix img) = Some p"
    "img' = img\<lparr>Pix := p\<rparr>"
    by (auto simp: craw_fill_rows_of [OF assms])
  show "raster_of w h img'"
    using assms p rows_length [OF p(1)] by (simp add: raster_of_def)
next
  fix img' x y
  assume "craw_fill img = Some img'"
    and "0 \<le> x \<and> even x \<and> x < uint w \<and> 0 \<le> y \<and> even y \<and> y < uint h"
  then show "tile_filled img img' x y"
    using fill_tiles [OF assms] by blast
qed

lemma raster_2x2_ok: "raster_of 2 2 raster_2x2"
  by (simp add: raster_of_def raster_2x2_def)

lemma craw_fill_2x2: "craw_fill raster_2x2 = Some filled_2x2"
  by (simp add: craw_fill_def raster_2x2_def filled_2x2_def image_Rect_def
      craw_fill_rows.simps craw_fill_upper.simps craw_fill_lower.simps
      copyR_def copyG_def copyB_def in_range_def)

theorem neighbour_fill_copy_rule_witness:
  "raster_of 2 2 raster_2x2 \<and> raw14_fill raster_2x2 = Some filled_2x2 \<and>
   craw_fill raster_2x2 = Some filled_2x2 \<and> tile_filled raster_2x2 filled_2x2 0 0"
  using neighbour_fill_copy_rule [OF raster_2x2_ok] craw_fill_2x2 raster_2x2_ok by simp




subsection \<open>The colour model\<close>

lemma unat_shift2: "unat (ucast (push_bit 2 (v :: u16)) :: u32) = unat v * 4 mod 2 ^ 16"
proof -
  have a: "unat (v * 4) = unat v * 4 mod 2 ^ 16"
    by (simp add: unat_word_ariths)
  have "unat (v * 4) < 2 ^ 16"
    using unsigned_less [of "v * 4"] by simp
  then have "unat (v * 4) mod 4294967296 = unat (v * 4)"
    by simp
  then show ?thesis
    using a by (simp add: unsigned_ucast_eq take_bit_eq_mod push_bit_eq_mult)
qed

text \<open>
  C7.  \<open>RGBA\<close> returns each of \<open>R\<close>, \<open>G\<close> and \<open>B\<close> times 4 modulo \<open>2 ^ 16\<close> (the shift by two
  bits within 16 bits) and the alpha \<open>0xffff\<close>; a lookup (\<open>at\<close>, \<open>At\<close>) leaves the raster as
  it was.
\<close>

theorem RGBA_shifts_within_16_bits:
  "(case RGBA c of (r, g, b, a) \<Rightarrow>
      unat r = unat (R c) * 4 mod 2 ^ 16 \<and> unat g = unat (G c) * 4 mod 2 ^ 16 \<and>
      unat b = unat (B c) * 4 mod 2 ^ 16 \<and> a = 0xffff) \<and>
   snd (at' img x y) = img \<and> snd (At img x y) = img"
  by (simp add: RGBA_def unat_shift2 at'_def At_def Let_def)

theorem RGBA_shifts_within_16_bits_witness:
  "RGBA \<lparr>R = 0x4001, G = 0x3fff, B = 1, pad = 0\<rparr> = (4, 0xfffc, 4, 0xffff) \<and>
   At raster_2x2 1 1 = (Some \<lparr>R = 0, G = 0, B = 40, pad = 0\<rparr>, raster_2x2)"
  using RGBA_shifts_within_16_bits [of "\<lparr>R = 0x4001, G = 0x3fff, B = 1, pad = 0\<rparr>" raster_2x2 1 1]
  by (simp add: RGBA_def At_def at'_def wrap64_def raster_2x2_def)

section \<open>Properties of the pixel corrector\<close>




lemma exact_simps [simp]:
  "fadd exact_ops = (+)" "fmul exact_ops = (*)" "fdiv exact_ops = (/)"
  "fgt exact_ops a b = (a > b)" "flit exact_ops q = of_rat q"
  "f_of_u32 exact_ops w = real (unat w)"
  by (simp_all add: exact_ops_def)

lemma sum_upto_5:
  fixes f :: "nat \<Rightarrow> real"
  shows "(\<Sum>k\<le>5. f k) = f 0 + f 1 + f 2 + f 3 + f 4 + f 5"
  by (simp add: numeral_eq_Suc)

lemma gamma_exact:
  "gamma' exact_ops xf v =
     (if v > 0x3FFF then 0x3FFF else (\<Sum>k\<le>5. xf k * (v / 0xCCC) ^ k))"
  by (simp add: gamma'_def Let_def sum_upto_5 power_numeral_reduce algebra_simps)

lemma process_exact:
  "process exact_ops xf s b w =
     (if s \<le> b then s
      else u32_of_f exact_ops
        (1.596472423 *
          (let v = real (unat (s - b)) * w
           in if v > 0x3FFF then 0x3FFF else (\<Sum>k\<le>5. xf k * (v / 0xCCC) ^ k))))"
  by (simp add: process_def gamma_exact gammaspace_def Let_def of_rat_divide mult.commute)


lemma u32_of_f_nonneg: "0 \<le> r \<Longrightarrow> u32_of_f exact_ops r = word_of_int \<lfloor>r\<rfloor>"
  by (simp add: exact_ops_def)






lemma gamma_identity: "gamma' exact_ops identity_curve v = (if v > 0x3FFF then 0x3FFF else v)"
  by (simp add: gamma_exact identity_curve_def sum_upto_5)

lemma process_identity_0x1000: "process exact_ops identity_curve 0x1000 0 1 = 6539"
  by (simp add: process_def gamma_identity gammaspace_def u32_of_f_nonneg of_rat_divide)






text \<open>
  The ceiling can break a curve that rises: on the line through \<open>(0, 0)\<close> and \<open>(5, 0x3FFF)\<close>
  the input \<open>0x3FFF\<close> is \<open>0x3FFF / 0xCCC > 5\<close> after the division, so the polynomial is above
  \<open>0x3FFF\<close> there, and the next sample gets the ceiling.
\<close>

lemma ceiling_breaks_a_rising_curve:
  "process exact_ops line_curve 16383 0 1 = 26159 \<and>
   process exact_ops line_curve 16384 0 1 = 26155"
  by (simp add: process_exact line_curve_def sum_upto_5 u32_of_f_nonneg)

section \<open>Properties of the channel-write passes\<close>

















subsection \<open>The rasters of readCRAW and readraw14\<close>

lemma set_length:
  "setR pix i v = Some p \<Longrightarrow> length p = length pix"
  "setG pix i v = Some p \<Longrightarrow> length p = length pix"
  "setB pix i v = Some p \<Longrightarrow> length p = length pix"
  by (auto simp: setR_def setG_def setB_def split: if_splits)

lemma store_even_length:
  "craw_store_even C red green base i pix = Some p \<Longrightarrow> length p = length pix"
proof (induction "nat (pixelBlockSize C - i)" arbitrary: i pix rule: less_induct)
  case less
  show ?case
  proof (cases "i < pixelBlockSize C")
    case False
    then show ?thesis using less.prems by (simp add: craw_store_even.simps)
  next
    case True
    with less.prems obtain r p1 g p2 where s:
      "setR pix (base + (i * 2)) r = Some p1" "setG p1 (base + (i * 2) + 1) g = Some p2"
      "craw_store_even C red green base (i + 1) p2 = Some p"
      by (subst (asm) craw_store_even.simps) (auto simp: bind_eq_Some_conv)
    have "length p = length p2"
      by (rule less.hyps [OF _ s(3)]) (use True in linarith)
    then show ?thesis using set_length(1) [OF s(1)] set_length(2) [OF s(2)] by simp
  qed
qed

lemma store_odd_length:
  "craw_store_odd C green blue base i pix = Some p \<Longrightarrow> length p = length pix"
proof (induction "nat (pixelBlockSize C - i)" arbitrary: i pix rule: less_induct)
  case less
  show ?case
  proof (cases "i < pixelBlockSize C")
    case False
    then show ?thesis using less.prems by (simp add: craw_store_odd.simps)
  next
    case True
    with less.prems obtain g p1 b p2 where s:
      "setG pix (base + (i * 2)) g = Some p1" "setB p1 (base + (i * 2) + 1) b = Some p2"
      "craw_store_odd C green blue base (i + 1) p2 = Some p"
      by (subst (asm) craw_store_odd.simps) (auto simp: bind_eq_Some_conv)
    have "length p = length p2"
      by (rule less.hyps [OF _ s(3)]) (use True in linarith)
    then show ?thesis using set_length(2) [OF s(1)] set_length(3) [OF s(2)] by simp
  qed
qed

lemma craw_block_length:
  "craw_block_even ops C xf bl wb buf S y x pix = Some p \<Longrightarrow> length p = length pix"
  "craw_block_odd ops C xf bl wb buf S y x pix = Some p \<Longrightarrow> length p = length pix"
  by (auto simp: craw_block_even_def craw_block_odd_def bind_eq_Some_conv Let_def
      dest: store_even_length store_odd_length)

lemma craw_write_row_length:
  "craw_write_row ops C xf bl wb buf S W y x pix = Some p \<Longrightarrow> length p = length pix"
proof (induction "nat (W - x)" arbitrary: x pix rule: less_induct)
  case less
  show ?case
  proof (cases "x < W")
    case False
    then show ?thesis using less.prems by (simp add: craw_write_row.simps)
  next
    case True
    with less.prems obtain q where q:
      "(if y mod 2 = 0 then craw_block_even ops C xf bl wb buf S y x pix
        else craw_block_odd ops C xf bl wb buf S y x pix) = Some q"
      "craw_write_row ops C xf bl wb buf S W y (x + 32) q = Some p"
      by (subst (asm) craw_write_row.simps) (auto simp: bind_eq_Some_conv)
    have "length p = length q"
      by (rule less.hyps [OF _ q(2)]) (use True in linarith)
    moreover have "length q = length pix"
      using q(1) craw_block_length by (auto split: if_splits)
    ultimately show ?thesis by simp
  qed
qed

lemma craw_write_rows_length:
  "craw_write_rows ops C xf bl wb buf S W H y pix = Some p \<Longrightarrow> length p = length pix"
proof (induction "nat (H - y)" arbitrary: y pix rule: less_induct)
  case less
  show ?case
  proof (cases "y < H")
    case False
    then show ?thesis using less.prems by (simp add: craw_write_rows.simps)
  next
    case True
    with less.prems obtain q where q:
      "craw_write_row ops C xf bl wb buf S W y 0 pix = Some q"
      "craw_write_rows ops C xf bl wb buf S W H (y + 1) q = Some p"
      by (subst (asm) craw_write_rows.simps) (auto simp: bind_eq_Some_conv)
    have "length p = length q"
      by (rule less.hyps [OF _ q(2)]) (use True in linarith)
    then show ?thesis using craw_write_row_length [OF q(1)] by simp
  qed
qed

lemma raw14_write_upper_length:
  "raw14_write_upper ops xf bl wb data S W y x pix = Some p \<Longrightarrow> length p = length pix"
proof (induction "nat (W - x)" arbitrary: x pix rule: less_induct)
  case less
  show ?case
  proof (cases "x < W")
    case False
    then show ?thesis using less.prems by (simp add: raw14_write_upper.simps)
  next
    case True
    with less.prems obtain u p1 v p2 where s:
      "setR pix (y * S + x) u = Some p1" "setG p1 (y * S + (x + 1)) v = Some p2"
      "raw14_write_upper ops xf bl wb data S W y (x + 1 + 1) p2 = Some p"
      by (subst (asm) raw14_write_upper.simps) (auto simp: bind_eq_Some_conv Let_def)
    have "length p = length p2"
      by (rule less.hyps [OF _ s(3)]) (use True in linarith)
    then show ?thesis using set_length(1) [OF s(1)] set_length(2) [OF s(2)] by simp
  qed
qed

lemma raw14_write_lower_length:
  "raw14_write_lower ops xf bl wb data S W y x pix = Some p \<Longrightarrow> length p = length pix"
proof (induction "nat (W - x)" arbitrary: x pix rule: less_induct)
  case less
  show ?case
  proof (cases "x < W")
    case False
    then show ?thesis using less.prems by (simp add: raw14_write_lower.simps)
  next
    case True
    with less.prems obtain u p1 v p2 where s:
      "setG pix (y * S + x) u = Some p1" "setB p1 (y * S + (x + 1)) v = Some p2"
      "raw14_write_lower ops xf bl wb data S W y (x + 1 + 1) p2 = Some p"
      by (subst (asm) raw14_write_lower.simps) (auto simp: bind_eq_Some_conv Let_def)
    have "length p = length p2"
      by (rule less.hyps [OF _ s(3)]) (use True in linarith)
    then show ?thesis using set_length(2) [OF s(1)] set_length(3) [OF s(2)] by simp
  qed
qed

lemma raw14_write_rows_length:
  "raw14_write_rows ops xf bl wb data S W H y pix = Some p \<Longrightarrow> length p = length pix"
proof (induction "nat (H - y)" arbitrary: y pix rule: less_induct)
  case less
  show ?case
  proof (cases "y < H")
    case False
    then show ?thesis using less.prems by (simp add: raw14_write_rows.simps)
  next
    case True
    with less.prems obtain p1 p2 where q:
      "raw14_write_upper ops xf bl wb data S W y 0 pix = Some p1"
      "raw14_write_lower ops xf bl wb data S W (y + 1) 0 p1 = Some p2"
      "raw14_write_rows ops xf bl wb data S W H (y + 1 + 1) p2 = Some p"
      by (subst (asm) raw14_write_rows.simps) (auto simp: bind_eq_Some_conv)
    have "length p = length p2"
      by (rule less.hyps [OF _ q(3)]) (use True in linarith)
    then show ?thesis
      using raw14_write_upper_length [OF q(1)] raw14_write_lower_length [OF q(2)] by simp
  qed
qed

lemma NewRGB14_raster:
  "\<exists>img. NewRGB14 (image_Rect 0 0 (uint w) (uint h)) = Some img \<and> raster_of w h img"
  by (simp add: NewRGB14_def image_Rect_def Dx_def Dy_def raster_of_def Let_def not_less)

text \<open>
  The rasters the fill passes run on: what \<open>readCRAW\<close> and \<open>readraw14\<close> return is the fill
  of a raster of the width and height of the parameters.
\<close>

lemma readCRAW_fills_a_raster:
  assumes "readCRAW ops solve C buf rw = Some out"
  shows "\<exists>img. raster_of (width rw) (height rw) img \<and> craw_fill img = Some out"
proof -
  obtain img0 where i: "NewRGB14 (image_Rect 0 0 (uint (width rw)) (uint (height rw))) = Some img0"
    "raster_of (width rw) (height rw) img0"
    using NewRGB14_raster by blast
  from assms i(1) obtain pix xf wb where p:
    "craw_write_rows ops C xf (blackLevel rw) wb buf (Stride img0)
       (X (Max' (Rect img0))) (Y (Max' (Rect img0))) 0 (Pix img0) = Some pix"
    "craw_fill (img0\<lparr>Pix := pix\<rparr>) = Some out"
    by (auto simp: readCRAW_def bind_eq_Some_conv Let_def)
  have "raster_of (width rw) (height rw) (img0\<lparr>Pix := pix\<rparr>)"
    using i(2) craw_write_rows_length [OF p(1)] by (simp add: raster_of_def)
  with p(2) show ?thesis by blast
qed

lemma readraw14_fills_a_raster:
  assumes "readraw14 ops solve buf rw = Some out"
  shows "\<exists>img. raster_of (width rw) (height rw) img \<and> raw14_fill img = Some out"
proof -
  obtain img0 where i: "NewRGB14 (image_Rect 0 0 (uint (width rw)) (uint (height rw))) = Some img0"
    "raster_of (width rw) (height rw) img0"
    using NewRGB14_raster by blast
  from assms i(1) obtain pix xf wb where p:
    "raw14_write_rows ops xf (blackLevel rw) wb (samples buf) (Stride img0)
       (X (Max' (Rect img0))) (Y (Max' (Rect img0))) 0 (Pix img0) = Some pix"
    "raw14_fill (img0\<lparr>Pix := pix\<rparr>) = Some out"
    by (auto simp: readraw14_def bind_eq_Some_conv Let_def)
  have "raster_of (width rw) (height rw) (img0\<lparr>Pix := pix\<rparr>)"
    using i(2) raw14_write_rows_length [OF p(1)] by (simp add: raster_of_def)
  with p(2) show ?thesis by blast
qed

end
